theory Spec2Isabelle
  imports Complex_Main "HOL-Library.Multiset"
begin

section \<open>Python values shared by the modules\<close>

text \<open>
  A Python exception is kept by the text \<open>str(e)\<close> gives for it: that text is all the
  program ever reads from a caught exception.
\<close>

datatype exn = Exception (str: string)

text \<open>\<open>sep.join(xs)\<close> of Python.\<close>

fun join :: "string \<Rightarrow> string list \<Rightarrow> string" where
  "join sep [] = []"
| "join sep [x] = x"
| "join sep (x # y # ys) = x @ sep @ join sep (y # ys)"

text \<open>
  \<open>list(set(xs))\<close>: the distinct elements of \<open>xs\<close>, in the iteration order of the set.
  Python fixes that order by the hashes of the elements (which change from one process to
  the next for strings), so the order is a parameter: \<open>h\<close> ranks the elements, and every
  order of the distinct elements is the order of some \<open>h\<close>.
\<close>

definition list_of_set :: "('a \<Rightarrow> nat) \<Rightarrow> 'a list \<Rightarrow> 'a list" where
  "list_of_set h xs = sort_key h (remdups xs)"

section \<open>plans/full\_code.py, agent/tools.py: the research tools\<close>

text \<open>
  The external collaborators of one \<open>ResearchAssistant\<close>. Each answers as a function of
  the logical time of the call (the number of external calls the run has made before it)
  and of its argument, and each may raise:
  \<^item> \<open>llm_invoke\<close>: \<open>self.llm.invoke(messages)\<close>, the tool-bound chat model;
  \<^item> \<open>search_run\<close>: \<open>self.search.run(query)\<close>, the DuckDuckGo search;
  \<^item> \<open>load_chunks\<close>: \<open>WebBaseLoader(url).load()\<close> followed by
    \<open>splitter.split_documents(docs)\<close>, giving the \<open>page_content\<close> of the chunks;
  \<^item> \<open>hash_rank\<close>: the order in which this process iterates a set of strings;
  \<^item> \<open>recursion_limit\<close>, \<open>recursion_error\<close>: the number of supersteps the compiled
    graph runs before it gives up, and the exception it raises then.
\<close>

datatype tool_call = ToolCall (tc_name: string) (tc_input: string)

datatype message =
    HumanMessage string
  | SystemMessage string
  | AIMessage string "tool_call list"
  | ToolMessage string string

fun content :: "message \<Rightarrow> string" where
  "content (HumanMessage c) = c"
| "content (SystemMessage c) = c"
| "content (AIMessage c tcs) = c"
| "content (ToolMessage c n) = c"

fun tool_calls :: "message \<Rightarrow> tool_call list" where
  "tool_calls (AIMessage c tcs) = tcs"
| "tool_calls m = []"

record research_assistant =
  llm_invoke :: "nat \<Rightarrow> message list \<Rightarrow> exn + message"
  search_run :: "nat \<Rightarrow> string \<Rightarrow> exn + string"
  load_chunks :: "nat \<Rightarrow> string \<Rightarrow> exn + string list"
  hash_rank :: "string \<Rightarrow> nat"
  recursion_limit :: nat
  recursion_error :: exn

definition web_search :: "research_assistant \<Rightarrow> nat \<Rightarrow> string \<Rightarrow> string" where
  "web_search a t query =
     (case search_run a t query of
        Inr results \<Rightarrow> results
      | Inl e \<Rightarrow> ''Search error: '' @ str e)"

definition fetch_webpage :: "research_assistant \<Rightarrow> nat \<Rightarrow> string \<Rightarrow> string" where
  "fetch_webpage a t url =
     (case load_chunks a t url of
        Inr chunks \<Rightarrow> join ''\<newline>\<newline>'' (take 3 chunks)
      | Inl e \<Rightarrow> ''Fetch error: '' @ str e)"

definition summarize_findings :: "(string \<Rightarrow> nat) \<Rightarrow> string list \<Rightarrow> string" where
  "summarize_findings h findings =
     (let unique_findings = list_of_set h findings
      in join ''\<newline>---\<newline>'' unique_findings)"

text \<open>
  The three functions as the tools \<open>get_tools\<close> registers. A \<open>Tool\<close> hands its function
  one string; \<open>set\<close> of a string is the set of its characters, each a string of length
  one. A name that is not registered is answered by the tool node with an error text.
\<close>

definition run_tool :: "research_assistant \<Rightarrow> nat \<Rightarrow> tool_call \<Rightarrow> string" where
  "run_tool a t tc =
     (if tc_name tc = ''web_search'' then web_search a t (tc_input tc)
      else if tc_name tc = ''fetch_webpage'' then fetch_webpage a t (tc_input tc)
      else if tc_name tc = ''summarize_findings''
        then summarize_findings (hash_rank a) (map (\<lambda>ch. [ch]) (tc_input tc))
      else ''Error: '' @ tc_name tc @
        '' is not a valid tool, try one of [web_search, fetch_webpage, summarize_findings].'')"

fun run_tools :: "research_assistant \<Rightarrow> nat \<Rightarrow> tool_call list \<Rightarrow> message list" where
  "run_tools a t [] = []"
| "run_tools a t (tc # tcs) = ToolMessage (run_tool a t tc) (tc_name tc) # run_tools a (Suc t) tcs"

section \<open>plans/full\_code.py, agent/nodes.py: the state and the nodes\<close>

text \<open>
  \<open>ResearchState\<close>. No key has a reducer, so the value a node returns for a key replaces
  the old one. \<open>research\<close> sets all five keys, so the defaults of \<open>state.get\<close> are never
  used. \<open>max_iterations\<close> is what the request carried: an integer or \<open>None\<close>.
\<close>

record research_state =
  messages :: "message list"
  research_query :: string
  findings :: "string list"
  iteration :: int
  max_iterations :: "int option"

definition planner_prompt :: string where
  "planner_prompt =
     ''You are a research planning expert.\<newline>'' @
     ''        Break down the research query into specific sub-queries.\<newline>'' @
     ''        Create a research plan with 2-3 focused search queries.''"

definition researcher_prompt :: string where
  "researcher_prompt =
     ''You are a thorough researcher.\<newline>'' @
     ''        Use the available tools to search for information.\<newline>'' @
     ''        Be specific and comprehensive in your searches.''"

definition synthesizer_system_prompt :: string where
  "synthesizer_system_prompt =
     ''You are a research synthesizer.\<newline>'' @
     ''        Create a comprehensive, well-structured report from the research findings.\<newline>'' @
     ''        Include:\<newline>'' @
     ''        1. Executive Summary\<newline>'' @
     ''        2. Key Findings (with sources)\<newline>'' @
     ''        3. Detailed Analysis\<newline>'' @
     ''        4. Conclusion\<newline>'' @
     ''        \<newline>'' @
     ''        Format in markdown.''"

definition synthesis_prompt :: "string list \<Rightarrow> string" where
  "synthesis_prompt fs =
     ''\<newline>'' @
     ''        Based on the research conducted, create a final report.\<newline>'' @
     ''        \<newline>'' @
     ''        Findings gathered:\<newline>'' @
     ''        '' @ (if fs \<noteq> [] then join ''\<newline>'' fs else ''Research in progress'') @ ''\<newline>'' @
     ''        \<newline>'' @
     ''        Create a comprehensive report now.\<newline>'' @
     ''        ''"

definition planner :: "research_assistant \<Rightarrow> nat \<Rightarrow> research_state \<Rightarrow> exn + research_state" where
  "planner a t s =
     (case llm_invoke a t (SystemMessage planner_prompt # messages s) of
        Inl e \<Rightarrow> Inl e
      | Inr response \<Rightarrow> Inr (s\<lparr>messages := [response], iteration := iteration s + 1\<rparr>))"

definition researcher :: "research_assistant \<Rightarrow> nat \<Rightarrow> research_state \<Rightarrow> exn + research_state" where
  "researcher a t s =
     (case llm_invoke a t (SystemMessage researcher_prompt # messages s) of
        Inl e \<Rightarrow> Inl e
      | Inr response \<Rightarrow> Inr (s\<lparr>messages := [response]\<rparr>))"

definition synthesizer :: "research_assistant \<Rightarrow> nat \<Rightarrow> research_state \<Rightarrow> exn + research_state" where
  "synthesizer a t s =
     (case llm_invoke a t
             [SystemMessage synthesizer_system_prompt,
              HumanMessage (synthesis_prompt (findings s))] of
        Inl e \<Rightarrow> Inl e
      | Inr response \<Rightarrow>
          Inr (s\<lparr>messages := [response], findings := findings s @ [content response]\<rparr>))"

text \<open>
  The prebuilt tool node: it runs the tool calls of the last message, which has to be a
  message of the model, and returns one tool message for each.
\<close>

definition tool_node :: "research_assistant \<Rightarrow> nat \<Rightarrow> research_state \<Rightarrow> exn + research_state" where
  "tool_node a t s =
     (case rev (messages s) of
        [] \<Rightarrow> Inl (Exception ''No message found in input'')
      | AIMessage c tcs # earlier \<Rightarrow> Inr (s\<lparr>messages := run_tools a t tcs\<rparr>)
      | other # earlier \<Rightarrow> Inl (Exception ''Last message is not an AIMessage''))"

text \<open>The prebuilt \<open>tools_condition\<close>: does the last message ask for a tool?\<close>

definition tools_condition :: "research_state \<Rightarrow> exn + string" where
  "tools_condition s =
     (case rev (messages s) of
        [] \<Rightarrow> Inl (Exception ''No messages found in input state to tool_edge'')
      | m # earlier \<Rightarrow> Inr (if tool_calls m \<noteq> [] then ''tools'' else ''__end__''))"

section \<open>plans/full\_code.py, agent/graph.py: the workflow\<close>

datatype node = Planner | Researcher | Tools | Synthesizer | END

definition should_continue_research :: "research_state \<Rightarrow> exn + string" where
  "should_continue_research s =
     (case max_iterations s of
        None \<Rightarrow>
          Inl (Exception
            (CHR 0x27 # ''>='' @ CHR 0x27 #
             '' not supported between instances of '' @ CHR 0x27 # ''int'' @ CHR 0x27 #
             '' and '' @ CHR 0x27 # ''NoneType'' @ [CHR 0x27]))
      | Some m \<Rightarrow> Inr (if iteration s \<ge> m then ''synthesizer'' else ''researcher''))"

text \<open>
  A conditional edge looks the string its condition returns up in the edge's table; a
  string that is not in the table is a \<open>KeyError\<close>.
\<close>

definition follow :: "(string \<times> node) list \<Rightarrow> exn + string \<Rightarrow> exn + node" where
  "follow path_map r =
     (case r of
        Inl e \<Rightarrow> Inl e
      | Inr key \<Rightarrow>
          (case map_of path_map key of
             None \<Rightarrow> Inl (Exception (CHR 0x27 # key @ [CHR 0x27]))
           | Some nd \<Rightarrow> Inr nd))"

text \<open>
  A configuration of the compiled graph of \<open>_build_graph\<close>: the node to run next, the
  state, the logical time, and the history of the run, which the program does not keep
  and the properties below speak about: the nodes run so far, oldest first, each with the
  value of \<open>iteration\<close> it left.
\<close>

record config =
  next_node :: node
  state :: research_state
  tick :: nat
  history :: "(node \<times> int) list"

definition arrive :: "config \<Rightarrow> research_state \<Rightarrow> nat \<Rightarrow> node \<Rightarrow> config" where
  "arrive c s t nd =
     \<lparr>next_node = nd, state = s, tick = t,
      history = history c @ [(next_node c, iteration s)]\<rparr>"

definition graph_step :: "research_assistant \<Rightarrow> config \<Rightarrow> exn + config" where
  "graph_step a c =
     (case next_node c of
        Planner \<Rightarrow>
          (case planner a (tick c) (state c) of
             Inl e \<Rightarrow> Inl e
           | Inr s \<Rightarrow> Inr (arrive c s (Suc (tick c)) Researcher))
      | Researcher \<Rightarrow>
          (case researcher a (tick c) (state c) of
             Inl e \<Rightarrow> Inl e
           | Inr s \<Rightarrow>
               (case follow [(''tools'', Tools), (''__end__'', Synthesizer)] (tools_condition s) of
                  Inl e \<Rightarrow> Inl e
                | Inr nd \<Rightarrow> Inr (arrive c s (Suc (tick c)) nd)))
      | Tools \<Rightarrow>
          (case tool_node a (tick c) (state c) of
             Inl e \<Rightarrow> Inl e
           | Inr s \<Rightarrow>
               (case follow [(''researcher'', Researcher), (''synthesizer'', Synthesizer)]
                       (should_continue_research s) of
                  Inl e \<Rightarrow> Inl e
                | Inr nd \<Rightarrow> Inr (arrive c s (tick c + length (messages s)) nd)))
      | Synthesizer \<Rightarrow>
          (case synthesizer a (tick c) (state c) of
             Inl e \<Rightarrow> Inl e
           | Inr s \<Rightarrow> Inr (arrive c s (Suc (tick c)) END))
      | END \<Rightarrow> Inr c)"

text \<open>The first \<open>k\<close> supersteps from a configuration: the configurations a run reaches.\<close>

fun graph_steps :: "research_assistant \<Rightarrow> nat \<Rightarrow> config \<Rightarrow> exn + config" where
  "graph_steps a 0 c = Inr c"
| "graph_steps a (Suc k) c =
     (case graph_step a c of Inl e \<Rightarrow> Inl e | Inr c' \<Rightarrow> graph_steps a k c')"

text \<open>
  \<open>graph.invoke\<close>: supersteps until the end node. The executor gives up with its
  recursion error unless the run reaches the end in fewer supersteps than the limit: with
  \<open>k\<close> supersteps left, the next one runs; with none left, the run is over, whether it
  has reached the end or not.
\<close>

fun run_graph :: "research_assistant \<Rightarrow> nat \<Rightarrow> config \<Rightarrow> exn + config" where
  "run_graph a 0 c = Inl (recursion_error a)"
| "run_graph a (Suc k) c =
     (if next_node c = END then Inr c
      else (case graph_step a c of Inl e \<Rightarrow> Inl e | Inr c' \<Rightarrow> run_graph a k c'))"

definition initial_state :: "string \<Rightarrow> int option \<Rightarrow> research_state" where
  "initial_state query mi =
     \<lparr>messages = [HumanMessage query], research_query = query, findings = [],
      iteration = 0, max_iterations = mi\<rparr>"

definition initial_config :: "string \<Rightarrow> int option \<Rightarrow> config" where
  "initial_config query mi =
     \<lparr>next_node = Planner, state = initial_state query mi, tick = 0, history = []\<rparr>"

definition invoke :: "research_assistant \<Rightarrow> string \<Rightarrow> int option \<Rightarrow> exn + config" where
  "invoke a query mi = run_graph a (recursion_limit a) (initial_config query mi)"

record research_result =
  res_query :: string
  res_report :: string
  res_iterations :: int
  res_findings_count :: int

definition research :: "research_assistant \<Rightarrow> string \<Rightarrow> int option \<Rightarrow> exn + research_result" where
  "research a query mi =
     (case invoke a query mi of
        Inl e \<Rightarrow> Inl e
      | Inr c \<Rightarrow>
          (case rev (messages (state c)) of
             [] \<Rightarrow> Inl (Exception ''list index out of range'')
           | final_message # earlier \<Rightarrow>
               Inr \<lparr>res_query = query, res_report = content final_message,
                    res_iterations = iteration (state c),
                    res_findings_count = int (length (findings (state c)))\<rparr>))"

section \<open>plans/full\_code.py, api/models.py and api/main.py: the HTTP surface\<close>

text \<open>
  A value of a request body as the validation receives it, after the JSON text is
  parsed: \<open>null\<close>, a boolean, an integer, a float (by its value), a string (a list of
  characters, one for each code point, so \<open>length\<close> is the length the validation
  counts), a list or an object. A field of the body is such a value, or is absent.
\<close>

datatype json =
    JNull
  | JBool bool
  | JInt int
  | JFloat real
  | JStr string
  | JList "json list"
  | JObject "(string \<times> json) list"

datatype error_type =
    Missing | StringType | StringTooShort | StringTooLong
  | IntType | IntParsing | IntFromFloat | GreaterThanEqual | LessThanEqual

text \<open>
  \<open>str = Field(..., min_length=, max_length=)\<close>: a required string; \<open>max_length\<close> is
  \<open>None\<close> where the declaration gives none. Only a string is taken for a string.
\<close>

definition str_field :: "nat \<Rightarrow> nat option \<Rightarrow> json option \<Rightarrow> error_type + string" where
  "str_field min_length max_length v =
     (case v of
        None \<Rightarrow> Inl Missing
      | Some (JStr s) \<Rightarrow>
          if length s < min_length then Inl StringTooShort
          else if (case max_length of None \<Rightarrow> False | Some n \<Rightarrow> n < length s)
            then Inl StringTooLong
          else Inr s
      | Some other \<Rightarrow> Inl StringType)"

text \<open>
  What the validation takes for an \<open>int\<close>: an integer; a boolean, as 0 or 1; a float
  without a fractional part; and a string that reads as an integer. How a string is read
  is the library's: \<open>str_to_int\<close> is a parameter.
\<close>

definition int_value :: "(string \<Rightarrow> int option) \<Rightarrow> json \<Rightarrow> error_type + int" where
  "int_value str_to_int v =
     (case v of
        JInt i \<Rightarrow> Inr i
      | JBool b \<Rightarrow> Inr (if b then 1 else 0)
      | JFloat x \<Rightarrow> if x = of_int \<lfloor>x\<rfloor> then Inr \<lfloor>x\<rfloor> else Inl IntFromFloat
      | JStr s \<Rightarrow> (case str_to_int s of None \<Rightarrow> Inl IntParsing | Some i \<Rightarrow> Inr i)
      | other \<Rightarrow> Inl IntType)"

text \<open>
  \<open>Optional[int] = Field(default, ge=, le=)\<close>: the default when the field is absent,
  \<open>None\<close> for \<open>null\<close>, and the bounds for every other value that is taken for an
  integer.
\<close>

definition optional_int_field ::
  "(string \<Rightarrow> int option) \<Rightarrow> int \<Rightarrow> int \<Rightarrow> int \<Rightarrow> json option \<Rightarrow> error_type + int option" where
  "optional_int_field str_to_int default_value ge le v =
     (case v of
        None \<Rightarrow> Inr (Some default_value)
      | Some JNull \<Rightarrow> Inr None
      | Some other \<Rightarrow>
          (case int_value str_to_int other of
             Inl e \<Rightarrow> Inl e
           | Inr i \<Rightarrow>
               if i < ge then Inl GreaterThanEqual
               else if le < i then Inl LessThanEqual
               else Inr (Some i)))"

record raw_request =
  raw_query :: "json option"
  raw_max_iterations :: "json option"

record request =
  query :: string
  req_max_iterations :: "int option"

definition field_errors :: "string \<Rightarrow> error_type + 'a \<Rightarrow> (string \<times> error_type) list" where
  "field_errors loc r = (case r of Inl e \<Rightarrow> [(loc, e)] | Inr v \<Rightarrow> [])"

definition validate_model ::
  "(json option \<Rightarrow> error_type + string) \<Rightarrow> (json option \<Rightarrow> error_type + int option) \<Rightarrow>
   raw_request \<Rightarrow> (string \<times> error_type) list + request" where
  "validate_model query_field max_iterations_field raw =
     (case (query_field (raw_query raw), max_iterations_field (raw_max_iterations raw)) of
        (Inr q, Inr m) \<Rightarrow> Inr \<lparr>query = q, req_max_iterations = m\<rparr>
      | (rq, rm) \<Rightarrow> Inl (field_errors ''query'' rq @ field_errors ''max_iterations'' rm))"

text \<open>\<open>ResearchRequest\<close> of plans/full\_code.py.\<close>

definition ResearchRequest ::
  "(string \<Rightarrow> int option) \<Rightarrow> raw_request \<Rightarrow> (string \<times> error_type) list + request" where
  "ResearchRequest str_to_int =
     validate_model (str_field 5 None) (optional_int_field str_to_int 3 1 10)"

datatype http_error =
    HTTPException (status_code: nat) (detail: string)
  | RequestValidationError "(string \<times> error_type) list"

definition verify_api_key :: "(string \<rightharpoonup> string) \<Rightarrow> string \<Rightarrow> http_error + string" where
  "verify_api_key env x_api_key =
     (let expected_key = (case env ''API_KEY'' of None \<Rightarrow> ''your-secret-key'' | Some v \<Rightarrow> v)
      in if x_api_key \<noteq> expected_key then Inl (HTTPException 401 ''Invalid API key'')
         else Inr x_api_key)"

text \<open>
  \<open>ResearchAssistant.__init__\<close> and the startup half of \<open>lifespan\<close>. \<open>connect\<close> is the
  construction of the chat model, the tools and the compiled graph from the provider key;
  it yields the collaborators or raises. The value returned is the new value of the global
  \<open>research_agent\<close>.
\<close>

definition ResearchAssistant ::
  "(string option \<Rightarrow> exn + research_assistant) \<Rightarrow> (string \<rightharpoonup> string) \<Rightarrow> string option \<Rightarrow>
   exn + research_assistant" where
  "ResearchAssistant connect env api_key =
     connect (case api_key of
                None \<Rightarrow> env ''GOOGLE_API_KEY''
              | Some k \<Rightarrow> if k = [] then env ''GOOGLE_API_KEY'' else Some k)"

definition lifespan ::
  "(string option \<Rightarrow> exn + research_assistant) \<Rightarrow> (string \<rightharpoonup> string) \<Rightarrow>
   exn + research_assistant option" where
  "lifespan connect env =
     (case ResearchAssistant connect env None of
        Inl e \<Rightarrow> Inl e
      | Inr agent \<Rightarrow> Inr (Some agent))"

record research_response =
  success :: bool
  resp_query :: string
  report :: string
  iterations :: int
  findings_count :: int
  processing_time :: real

text \<open>
  \<open>conduct_research\<close>; \<open>start_time\<close> and \<open>end_time\<close> are the two readings of the clock.
\<close>

definition conduct_research ::
  "research_assistant option \<Rightarrow> real \<Rightarrow> real \<Rightarrow> request \<Rightarrow> http_error + research_response" where
  "conduct_research research_agent start_time end_time request =
     (case research_agent of
        None \<Rightarrow> Inl (HTTPException 503 ''Agent not initialized'')
      | Some agent \<Rightarrow>
          (case research agent (query request) (req_max_iterations request) of
             Inr result \<Rightarrow>
               Inr \<lparr>success = True, resp_query = res_query result,
                    report = res_report result, iterations = res_iterations result,
                    findings_count = res_findings_count result,
                    processing_time = end_time - start_time\<rparr>
           | Inl e \<Rightarrow> Inl (HTTPException 500 (''Research failed: '' @ str e))))"

text \<open>
  \<open>conduct_research_streaming\<close>. \<open>generate\<close> is the list of the chunks the generator
  yields. With no agent, \<open>research_agent.research\<close> is an \<open>AttributeError\<close>, caught like
  every other exception. A \<open>StreamingResponse\<close> has status 200 unless it is given another.
\<close>

definition generate :: "research_assistant option \<Rightarrow> request \<Rightarrow> string list" where
  "generate research_agent request =
     (''data: Starting research for: '' @ query request @ ''\<newline>\<newline>'') #
     (case (case research_agent of
              None \<Rightarrow>
                Inl (Exception
                  (CHR 0x27 # ''NoneType'' @ CHR 0x27 # '' object has no attribute '' @
                   CHR 0x27 # ''research'' @ [CHR 0x27]))
            | Some agent \<Rightarrow> research agent (query request) (req_max_iterations request)) of
        Inr result \<Rightarrow>
          [''data: '' @ res_report result @ ''\<newline>\<newline>'', ''data: [DONE]\<newline>\<newline>'']
      | Inl e \<Rightarrow> [''data: Error: '' @ str e @ ''\<newline>\<newline>''])"

record streaming_response =
  stream_status :: nat
  media_type :: string
  body :: "string list"

definition StreamingResponse :: "string list \<Rightarrow> string \<Rightarrow> streaming_response" where
  "StreamingResponse chunks mt = \<lparr>stream_status = 200, media_type = mt, body = chunks\<rparr>"

definition conduct_research_streaming :: "research_assistant option \<Rightarrow> request \<Rightarrow> streaming_response" where
  "conduct_research_streaming research_agent request =
     StreamingResponse (generate research_agent request) ''text/event-stream''"



text \<open>
  \<open>POST /research\<close> as the framework serves it: the dependency \<open>verify_api_key\<close>, then
  the validation of the body, and the handler only with a valid request.
\<close>

definition post_research ::
  "(string \<Rightarrow> int option) \<Rightarrow> (string \<rightharpoonup> string) \<Rightarrow> research_assistant option \<Rightarrow> real \<Rightarrow> real \<Rightarrow>
   string \<Rightarrow> raw_request \<Rightarrow> http_error + research_response" where
  "post_research str_to_int env research_agent start_time end_time x_api_key raw =
     (case verify_api_key env x_api_key of
        Inl e \<Rightarrow> Inl e
      | Inr api_key \<Rightarrow>
          (case ResearchRequest str_to_int raw of
             Inl errors \<Rightarrow> Inl (RequestValidationError errors)
           | Inr request \<Rightarrow> conduct_research research_agent start_time end_time request))"

section \<open>app/models/schemas.py\<close>

text \<open>
  The decorator \<open>field_validator(field, mode=, check_fields=)\<close> of the validation
  library, called with keyword arguments: it knows the keywords \<open>mode\<close> and
  \<open>check_fields\<close>, and a call with any other keyword is a \<open>TypeError\<close>. It returns the
  mode of the validator, \<open>after\<close> unless \<open>mode\<close> says otherwise.
\<close>

datatype kwarg = KwBool bool | KwStr string

definition field_validator :: "string \<Rightarrow> (string \<times> kwarg) list \<Rightarrow> exn + string" where
  "field_validator field_name kwargs =
     (case filter (\<lambda>kw. fst kw \<noteq> ''mode'' \<and> fst kw \<noteq> ''check_fields'') kwargs of
        (k, v) # others \<Rightarrow>
          Inl (Exception
            (''field_validator() got an unexpected keyword argument '' @
             CHR 0x27 # k @ [CHR 0x27]))
      | [] \<Rightarrow>
          (case map_of kwargs ''mode'' of
             Some (KwStr m) \<Rightarrow> Inr m
           | other \<Rightarrow> Inr ''after''))"

text \<open>
  \<open>ToolCallResult\<close>: \<open>result\<close> is a string, a mapping or \<open>None\<close>, and the validator
  \<open>allow_empty_result\<close> is registered for it by
  \<open>@field_validator("result", pre=True)\<close>. The decorator is called while the body of
  the class runs, which is while the module is imported; \<open>ToolCallResult_class\<close> is what
  that gives: the exception, or the mode in which the validator runs.
\<close>

datatype result_value = PyNone | PyStr string | PyDict "(string \<times> string) list"

record tool_call_result =
  tool_name :: string
  tool_success :: bool
  result :: result_value

definition allow_empty_result :: "result_value \<Rightarrow> result_value" where
  "allow_empty_result v = (if v = PyNone then PyStr [] else v)"

definition ToolCallResult_class :: "exn + string" where
  "ToolCallResult_class = field_validator ''result'' [(''pre'', KwBool True)]"

text \<open>
  The import of the module: its classes are declared one after the other, the last of
  them \<open>ToolCallResult\<close>, and an exception in a class body is the exception of the
  import.
\<close>

definition import_schemas :: "exn + unit" where
  "import_schemas = (case ToolCallResult_class of Inl e \<Rightarrow> Inl e | Inr mode \<Rightarrow> Inr ())"

text \<open>
  Building a \<open>ToolCallResult\<close>, as the test does: import the module, then call the
  class. In either mode the validator sees \<open>None\<close>, a string or a mapping as it is given,
  since the type of the field admits all three.
\<close>

definition ToolCallResult :: "string \<Rightarrow> bool \<Rightarrow> result_value \<Rightarrow> exn + tool_call_result" where
  "ToolCallResult name ok v =
     (case import_schemas of
        Inl e \<Rightarrow> Inl e
      | Inr imported \<Rightarrow>
          Inr \<lparr>tool_name = name, tool_success = ok, result = allow_empty_result v\<rparr>)"

text \<open>\<open>AgentInput\<close> and \<open>ResearchTaskRequest\<close>, of the same module.\<close>

definition AgentInput ::
  "(string \<Rightarrow> int option) \<Rightarrow> raw_request \<Rightarrow> exn + ((string \<times> error_type) list + request)" where
  "AgentInput str_to_int raw =
     (case import_schemas of
        Inl e \<Rightarrow> Inl e
      | Inr imported \<Rightarrow>
          Inr (validate_model (str_field 5 (Some 1000))
                 (optional_int_field str_to_int 3 1 10) raw))"

definition ResearchTaskRequest ::
  "(string \<Rightarrow> int option) \<Rightarrow> raw_request \<Rightarrow> exn + ((string \<times> error_type) list + request)" where
  "ResearchTaskRequest str_to_int raw =
     (case import_schemas of
        Inl e \<Rightarrow> Inl e
      | Inr imported \<Rightarrow>
          Inr (validate_model (str_field 5 (Some 1000))
                 (optional_int_field str_to_int 3 1 10) raw))"

section \<open>Notions for stating the properties\<close>

text \<open>How often a run has executed a node.\<close>

definition visits :: "node \<Rightarrow> config \<Rightarrow> nat" where
  "visits nd c = length (filter (\<lambda>x. fst x = nd) (history c))"

text \<open>
  The bound of \<open>_should_continue_research\<close> is met as soon as the planner has run: the
  request carried an integer that is at most one.
\<close>

definition met_after_planner :: "int option \<Rightarrow> bool" where
  "met_after_planner mi = (case mi of None \<Rightarrow> False | Some N \<Rightarrow> N \<le> 1)"

text \<open>What holds of every configuration a run with the bound \<open>mi\<close> reaches.\<close>

definition run_inv :: "int option \<Rightarrow> config \<Rightarrow> bool" where
  "run_inv mi c \<longleftrightarrow>
     max_iterations (state c) = mi \<and>
     iteration (state c) = (if next_node c = Planner then 0 else 1) \<and>
     snd ` set (history c) \<subseteq> {1} \<and>
     (next_node c = Planner \<longrightarrow> history c = []) \<and>
     visits Planner c = (if next_node c = Planner then 0 else 1) \<and>
     visits Synthesizer c = (if next_node c = END then 1 else 0) \<and>
     length (findings (state c)) = (if next_node c = END then 1 else 0) \<and>
     (met_after_planner mi \<longrightarrow>
        visits Researcher c = (if next_node c \<in> {Planner, Researcher} then 0 else 1)) \<and>
     (next_node c = Researcher \<longrightarrow> messages (state c) \<noteq> []) \<and>
     (next_node c = Tools \<longrightarrow>
        (\<exists>ct tcs. messages (state c) = [AIMessage ct tcs] \<and> tcs \<noteq> [])) \<and>
     (next_node c = Synthesizer \<and> \<not> met_after_planner mi \<longrightarrow>
        (\<exists>h. history c = h @ [(Researcher, 1)]) \<and>
        (\<exists>m. messages (state c) = [m] \<and> tool_calls m = [])) \<and>
     (next_node c = END \<longrightarrow>
        messages (state c) \<noteq> [] \<and>
        (\<not> met_after_planner mi \<longrightarrow>
           (\<exists>h. history c = h @ [(Researcher, 1), (Synthesizer, 1)])))"

text \<open>
  In the history, a pass through the tools node that leaves \<open>iteration\<close> at the bound
  \<open>N\<close> or beyond is followed by the synthesizer.
\<close>

definition tools_exit_inv :: "int \<Rightarrow> config \<Rightarrow> bool" where
  "tools_exit_inv N c \<longleftrightarrow>
     max_iterations (state c) = Some N \<and>
     (\<forall>i. Suc i < length (history c) \<and> fst (history c ! i) = Tools \<and> N \<le> snd (history c ! i) \<longrightarrow>
        fst (history c ! Suc i) = Synthesizer) \<and>
     (history c \<noteq> [] \<and> fst (last (history c)) = Tools \<and> N \<le> snd (last (history c)) \<longrightarrow>
        next_node c = Synthesizer)"

text \<open>The model call of the node that runs next raises \<open>e\<close>.\<close>

definition model_call_raises :: "research_assistant \<Rightarrow> config \<Rightarrow> exn \<Rightarrow> bool" where
  "model_call_raises a c e \<longleftrightarrow>
     next_node c = Planner \<and>
       llm_invoke a (tick c) (SystemMessage planner_prompt # messages (state c)) = Inl e \<or>
     next_node c = Researcher \<and>
       llm_invoke a (tick c) (SystemMessage researcher_prompt # messages (state c)) = Inl e \<or>
     next_node c = Synthesizer \<and>
       llm_invoke a (tick c)
         [SystemMessage synthesizer_system_prompt,
          HumanMessage (synthesis_prompt (findings (state c)))] = Inl e"

text \<open>
  Test doubles: an assistant whose model answers by a script on the time of the call and
  whose search and page loader are out of order.
\<close>

definition scripted :: "(nat \<Rightarrow> exn + message) \<Rightarrow> research_assistant" where
  "scripted script =
     \<lparr>llm_invoke = (\<lambda>t ms. script t),
      search_run = (\<lambda>t q. Inl (Exception ''offline'')),
      load_chunks = (\<lambda>t u. Inl (Exception ''timeout'')),
      hash_rank = length,
      recursion_limit = 25,
      recursion_error = Exception ''Recursion limit of 25 reached''\<rparr>"

definition asks_once :: "nat \<Rightarrow> exn + message" where
  "asks_once t =
     Inr (AIMessage ''ok'' (if t = 1 then [ToolCall ''web_search'' ''news''] else []))"

definition never_asks :: "nat \<Rightarrow> exn + message" where
  "never_asks t = Inr (AIMessage ''# Report'' [])"

definition always_asks :: "nat \<Rightarrow> exn + message" where
  "always_asks t = Inr (AIMessage ''more'' [ToolCall ''fetch_webpage'' ''http://example.org''])"

definition model_down :: "nat \<Rightarrow> exn + message" where
  "model_down t = Inl (Exception ''quota exceeded'')"


text \<open>A reader of strings as integers that knows the string \<open>5\<close> only.\<close>

definition reads_five :: "string \<Rightarrow> int option" where
  "reads_five s = (if s = ''5'' then Some 5 else None)"



section \<open>The steps of the graph\<close>

lemma follow_tools_condition:
  "follow [(''tools'', Tools), (''__end__'', Synthesizer)] (tools_condition s) = Inr nd \<Longrightarrow>
   \<exists>m earlier. rev (messages s) = m # earlier \<and>
     nd = (if tool_calls m \<noteq> [] then Tools else Synthesizer)"
  by (auto simp: follow_def tools_condition_def split: list.splits if_splits)

lemma follow_should_continue:
  "follow [(''researcher'', Researcher), (''synthesizer'', Synthesizer)]
     (should_continue_research s) = Inr nd \<Longrightarrow>
   \<exists>m. max_iterations s = Some m \<and>
     nd = (if iteration s \<ge> m then Synthesizer else Researcher)"
  by (auto simp: follow_def should_continue_research_def split: option.splits if_splits)

lemma graph_step_Planner:
  assumes "graph_step a c = Inr c'" and "next_node c = Planner"
  shows "\<exists>r. c' = arrive c ((state c)\<lparr>messages := [r], iteration := iteration (state c) + 1\<rparr>)
                    (Suc (tick c)) Researcher"
  using assms by (auto simp: graph_step_def planner_def split: sum.splits)


lemma graph_step_Researcher:
  assumes "graph_step a c = Inr c'" and "next_node c = Researcher"
  shows "\<exists>r. c' = arrive c ((state c)\<lparr>messages := [r]\<rparr>) (Suc (tick c))
                    (if tool_calls r \<noteq> [] then Tools else Synthesizer)"
  using assms
  by (auto simp: graph_step_def researcher_def split: sum.splits dest!: follow_tools_condition)

lemma graph_step_Tools:
  assumes "graph_step a c = Inr c'" and "next_node c = Tools"
  shows "\<exists>ct tcs earlier m. rev (messages (state c)) = AIMessage ct tcs # earlier \<and>
           max_iterations (state c) = Some m \<and>
           c' = arrive c ((state c)\<lparr>messages := run_tools a (tick c) tcs\<rparr>)
                  (tick c + length (run_tools a (tick c) tcs))
                  (if iteration (state c) \<ge> m then Synthesizer else Researcher)"
  using assms
  by (auto simp: graph_step_def tool_node_def split: sum.splits list.splits message.splits
           dest!: follow_should_continue)

lemma graph_step_Synthesizer:
  assumes "graph_step a c = Inr c'" and "next_node c = Synthesizer"
  shows "\<exists>r. c' = arrive c ((state c)\<lparr>messages := [r],
                      findings := findings (state c) @ [content r]\<rparr>) (Suc (tick c)) END"
  using assms by (auto simp: graph_step_def synthesizer_def split: sum.splits)

lemma graph_step_END:
  assumes "graph_step a c = Inr c'" and "next_node c = END"
  shows "c' = c"
  using assms by (auto simp: graph_step_def)

lemma visits_arrive:
  "visits nd (arrive c s t nx) = visits nd c + (if next_node c = nd then 1 else 0)"
  by (simp add: visits_def arrive_def)

lemma arrive_simps:
  "next_node (arrive c s t nx) = nx"
  "state (arrive c s t nx) = s"
  "tick (arrive c s t nx) = t"
  "history (arrive c s t nx) = history c @ [(next_node c, iteration s)]"
  by (simp_all add: arrive_def)

lemma tool_calls_nonempty:
  "tool_calls r \<noteq> [] \<Longrightarrow> \<exists>ct tcs. r = AIMessage ct tcs \<and> tcs \<noteq> []"
  by (cases r) auto

lemma run_tools_empty: "run_tools a t tcs = [] \<longleftrightarrow> tcs = []"
  by (cases tcs) auto

subsection \<open>The invariant of a run\<close>

lemma run_inv_initial: "run_inv mi (initial_config q mi)"
  by (simp add: run_inv_def initial_config_def initial_state_def visits_def)

lemma run_inv_step:
  assumes inv: "run_inv mi c" and step: "graph_step a c = Inr c'"
  shows "run_inv mi c'"
proof (cases "next_node c")
  case Planner
  from graph_step_Planner [OF step Planner] obtain r where
    c': "c' = arrive c ((state c)\<lparr>messages := [r], iteration := iteration (state c) + 1\<rparr>)
                (Suc (tick c)) Researcher" ..
  from inv Planner have "history c = []"
    by (simp add: run_inv_def)
  with inv Planner show ?thesis
    unfolding c' by (simp add: run_inv_def visits_arrive arrive_simps)
next
  case Researcher
  from graph_step_Researcher [OF step Researcher] obtain r where
    c': "c' = arrive c ((state c)\<lparr>messages := [r]\<rparr>) (Suc (tick c))
                (if tool_calls r \<noteq> [] then Tools else Synthesizer)" ..
  show ?thesis
  proof (cases "tool_calls r = []")
    case True
    with inv Researcher show ?thesis
      unfolding c' by (simp add: run_inv_def visits_arrive arrive_simps)
  next
    case False
    with tool_calls_nonempty [of r] inv Researcher show ?thesis
      unfolding c' by (auto simp add: run_inv_def visits_arrive arrive_simps)
  qed
next
  case Tools
  from graph_step_Tools [OF step Tools] obtain ct tcs earlier m where
    m: "max_iterations (state c) = Some m" and
    c': "c' = arrive c ((state c)\<lparr>messages := run_tools a (tick c) tcs\<rparr>)
                  (tick c + length (run_tools a (tick c) tcs))
                  (if iteration (state c) \<ge> m then Synthesizer else Researcher)"
    and tcs: "rev (messages (state c)) = AIMessage ct tcs # earlier"
    by blast
  from inv m have mi: "mi = Some m" by (simp add: run_inv_def)
  from inv Tools tcs have ne: "run_tools a (tick c) tcs \<noteq> []"
    by (auto simp add: run_inv_def run_tools_empty)
  show ?thesis
  proof (cases "m \<le> 1")
    case True
    with inv Tools mi ne show ?thesis
      unfolding c' by (simp add: run_inv_def visits_arrive arrive_simps met_after_planner_def)
  next
    case False
    with inv Tools mi ne show ?thesis
      unfolding c' by (simp add: run_inv_def visits_arrive arrive_simps met_after_planner_def)
  qed
next
  case Synthesizer
  from graph_step_Synthesizer [OF step Synthesizer] obtain r where
    c': "c' = arrive c ((state c)\<lparr>messages := [r],
                      findings := findings (state c) @ [content r]\<rparr>) (Suc (tick c)) END" ..
  from inv Synthesizer show ?thesis
    unfolding c' by (auto simp add: run_inv_def visits_arrive arrive_simps)
next
  case END
  with graph_step_END [OF step] inv show ?thesis by simp
qed

lemma run_inv_steps:
  "run_inv mi c \<Longrightarrow> graph_steps a k c = Inr c' \<Longrightarrow> run_inv mi c'"
proof (induction k arbitrary: c)
  case 0
  then show ?case by simp
next
  case (Suc k)
  then show ?case
    by (auto split: sum.splits dest: run_inv_step)
qed

lemma reached_inv:
  "graph_steps a k (initial_config q mi) = Inr c \<Longrightarrow> run_inv mi c"
  using run_inv_initial by (rule run_inv_steps)

subsection \<open>Runs to the end\<close>

lemma run_graph_steps:
  "run_graph a k c = Inr c' \<Longrightarrow> next_node c' = END \<and> (\<exists>j<k. graph_steps a j c = Inr c')"
proof (induction k arbitrary: c)
  case 0
  then show ?case by simp
next
  case (Suc k)
  show ?case
  proof (cases "next_node c = END")
    case True
    with Suc.prems have "c' = c" by simp
    with True show ?thesis by (intro conjI exI [of _ 0]) simp_all
  next
    case False
    with Suc.prems obtain c1 where 1: "graph_step a c = Inr c1" and 2: "run_graph a k c1 = Inr c'"
      by (auto split: sum.splits)
    from Suc.IH [OF 2] obtain j where "next_node c' = END" "j < k" "graph_steps a j c1 = Inr c'"
      by blast
    with 1 show ?thesis by (intro conjI exI [of _ "Suc j"]) simp_all
  qed
qed

lemma invoke_inv:
  assumes "invoke a q mi = Inr c"
  shows "next_node c = END \<and> run_inv mi c"
proof -
  from assms run_graph_steps [of a "recursion_limit a" "initial_config q mi" c]
  obtain j where "next_node c = END" "graph_steps a j (initial_config q mi) = Inr c"
    by (auto simp: invoke_def)
  then show ?thesis by (simp add: reached_inv)
qed

lemma graph_steps_END: "next_node c = END \<Longrightarrow> graph_steps a k c = Inr c"
  by (induction k) (simp_all add: graph_step_def)

lemma run_graph_skip:
  "graph_steps a k c0 = Inr c \<Longrightarrow> next_node c \<noteq> END \<Longrightarrow> run_graph a (k + j) c0 = run_graph a j c"
proof (induction k arbitrary: c0)
  case 0
  then show ?case by simp
next
  case (Suc k)
  from Suc.prems obtain c1 where 1: "graph_step a c0 = Inr c1" and 2: "graph_steps a k c1 = Inr c"
    by (auto split: sum.splits)
  have "next_node c0 \<noteq> END"
  proof
    assume e: "next_node c0 = END"
    with 1 have "c1 = c0" by (simp add: graph_step_def)
    with 2 e graph_steps_END [of c0 a k] Suc.prems(2) show False by simp
  qed
  with 1 Suc.IH [OF 2 Suc.prems(2)] show ?case by simp
qed

subsection \<open>Single steps from a reached configuration\<close>

lemma tools_step:
  assumes inv: "run_inv (Some N) c" and t: "next_node c = Tools"
  shows "\<exists>c'. graph_step a c = Inr c' \<and>
           next_node c' = (if N \<le> iteration (state c) then Synthesizer else Researcher)"
proof -
  from inv t obtain ct tcs where "messages (state c) = [AIMessage ct tcs]"
    by (auto simp: run_inv_def)
  moreover from inv have "max_iterations (state c) = Some N"
    by (simp add: run_inv_def)
  ultimately show ?thesis using t
    by (simp add: graph_step_def tool_node_def follow_def should_continue_research_def
        arrive_simps)
qed

lemma model_step:
  assumes n: "next_node c \<in> {Planner, Researcher, Synthesizer}"
    and llm: "\<forall>t ms. \<exists>r. llm_invoke a t ms = Inr r"
  shows "\<exists>c'. graph_step a c = Inr c'"
proof -
  from llm obtain f where f: "\<And>t ms. llm_invoke a t ms = Inr (f t ms)"
    by metis
  from n show ?thesis
    by (auto simp: graph_step_def planner_def researcher_def synthesizer_def f
        follow_def tools_condition_def)
qed

lemma filter_conj_le: "length (filter (\<lambda>x. P x \<and> Q x) xs) \<le> length (filter P xs)"
proof -
  have "filter (\<lambda>x. P x \<and> Q x) xs = filter Q (filter P xs)"
    by (simp add: conj_commute)
  then show ?thesis by (simp only: length_filter_le)
qed

lemma research_invoke:
  assumes "research a q mi = Inr r"
  shows "\<exists>c. invoke a q mi = Inr c \<and> res_iterations r = iteration (state c) \<and>
           res_findings_count r = int (length (findings (state c)))"
  using assms by (auto simp: research_def split: sum.splits list.splits)

subsection \<open>After the tools node\<close>

lemma tools_exit_inv_arrive:
  assumes inv: "tools_exit_inv N c" and m: "max_iterations s = Some N"
    and nx: "next_node c = Tools \<and> N \<le> iteration s \<longrightarrow> nx = Synthesizer"
  shows "tools_exit_inv N (arrive c s t nx)"
proof -
  let ?h = "history c" and ?x = "(next_node c, iteration s)"
  have "fst ((?h @ [?x]) ! Suc i) = Synthesizer"
    if i: "Suc i < length (?h @ [?x])" and t: "fst ((?h @ [?x]) ! i) = Tools"
      and n: "N \<le> snd ((?h @ [?x]) ! i)" for i
  proof (cases "Suc i < length ?h")
    case True
    with t n inv show ?thesis by (simp add: nth_append tools_exit_inv_def)
  next
    case False
    with i have l: "Suc i = length ?h" by simp
    then have ne: "?h \<noteq> []" by auto
    with l [symmetric] have la: "last ?h = ?h ! i"
      by (simp add: last_conv_nth)
    from l t n la have "fst (last ?h) = Tools \<and> N \<le> snd (last ?h)"
      by (simp add: nth_append)
    with inv ne have "next_node c = Synthesizer" by (simp add: tools_exit_inv_def)
    with l show ?thesis by (simp add: nth_append)
  qed
  with m nx show ?thesis
    by (simp add: tools_exit_inv_def arrive_simps)
qed

lemma tools_exit_inv_step:
  assumes inv: "tools_exit_inv N c" and step: "graph_step a c = Inr c'"
  shows "tools_exit_inv N c'"
proof -
  from inv have mN: "max_iterations (state c) = Some N"
    by (simp add: tools_exit_inv_def)
  show ?thesis
  proof (cases "next_node c")
    case Planner
    from graph_step_Planner [OF step Planner] obtain r where
      c': "c' = arrive c ((state c)\<lparr>messages := [r], iteration := iteration (state c) + 1\<rparr>)
                  (Suc (tick c)) Researcher" ..
    from mN Planner show ?thesis
      unfolding c' by (intro tools_exit_inv_arrive [OF inv]) simp_all
  next
    case Researcher
    from graph_step_Researcher [OF step Researcher] obtain r where
      c': "c' = arrive c ((state c)\<lparr>messages := [r]\<rparr>) (Suc (tick c))
                  (if tool_calls r \<noteq> [] then Tools else Synthesizer)" ..
    from mN Researcher show ?thesis
      unfolding c' by (intro tools_exit_inv_arrive [OF inv]) simp_all
  next
    case Tools
    from graph_step_Tools [OF step Tools] obtain tcs m where
      m: "max_iterations (state c) = Some m" and
      c': "c' = arrive c ((state c)\<lparr>messages := run_tools a (tick c) tcs\<rparr>)
                    (tick c + length (run_tools a (tick c) tcs))
                    (if iteration (state c) \<ge> m then Synthesizer else Researcher)"
      by blast
    from mN m show ?thesis
      unfolding c' by (intro tools_exit_inv_arrive [OF inv]) simp_all
  next
    case Synthesizer
    from graph_step_Synthesizer [OF step Synthesizer] obtain r where
      c': "c' = arrive c ((state c)\<lparr>messages := [r],
                        findings := findings (state c) @ [content r]\<rparr>) (Suc (tick c)) END" ..
    from mN Synthesizer show ?thesis
      unfolding c' by (intro tools_exit_inv_arrive [OF inv]) simp_all
  next
    case END
    with graph_step_END [OF step] inv show ?thesis by simp
  qed
qed

lemma tools_exit_inv_steps:
  "tools_exit_inv N c \<Longrightarrow> graph_steps a k c = Inr c' \<Longrightarrow> tools_exit_inv N c'"
proof (induction k arbitrary: c)
  case 0
  then show ?case by simp
next
  case (Suc k)
  then show ?case
    by (auto split: sum.splits dest: tools_exit_inv_step)
qed

lemma invoke_tools_exit:
  assumes "invoke a q (Some N) = Inr c"
  shows "tools_exit_inv N c"
proof -
  from assms run_graph_steps [of a "recursion_limit a" "initial_config q (Some N)" c]
  obtain j where "graph_steps a j (initial_config q (Some N)) = Inr c"
    by (auto simp: invoke_def)
  moreover have "tools_exit_inv N (initial_config q (Some N))"
    by (simp add: tools_exit_inv_def initial_config_def initial_state_def)
  ultimately show ?thesis by (blast intro: tools_exit_inv_steps)
qed

subsection \<open>Evaluating the test doubles\<close>

lemmas run_defs =
  graph_step_def planner_def researcher_def synthesizer_def tool_node_def tools_condition_def
  follow_def should_continue_research_def arrive_def initial_config_def initial_state_def
  run_tool_def web_search_def fetch_webpage_def scripted_def

lemma asks_once_run:
  "research (scripted asks_once) ''What is new in AI?'' (Some 1) =
     Inr \<lparr>res_query = ''What is new in AI?'', res_report = ''ok'', res_iterations = 1,
          res_findings_count = 1\<rparr>"
  by (simp add: research_def invoke_def eval_nat_numeral run_defs asks_once_def)

section \<open>The iteration bound\<close>

text \<open>
  C1. Take a run started with \<open>1 \<le> max_iterations \<le> 10\<close>. In every configuration it
  reaches, \<open>iteration\<close> is at most \<open>max_iterations\<close>; and where \<open>iteration\<close> has reached
  \<open>max_iterations\<close>, \<open>_should_continue_research\<close> answers \<open>synthesizer\<close>, and the step
  of the tools node goes to the synthesizer (so neither to the researcher nor to the
  planner).
\<close>

theorem iteration_never_exceeds_bound:
  assumes "1 \<le> N" and "N \<le> 10"
    and "graph_steps a k (initial_config q (Some N)) = Inr c"
  shows "iteration (state c) \<le> N \<and>
     (N \<le> iteration (state c) \<longrightarrow>
        should_continue_research (state c) = Inr ''synthesizer'') \<and>
     (N \<le> iteration (state c) \<and> next_node c = Tools \<longrightarrow>
        (\<exists>c'. graph_step a c = Inr c' \<and> next_node c' = Synthesizer))"
proof -
  from assms(3) have inv: "run_inv (Some N) c" by (rule reached_inv)
  with assms(1) have "iteration (state c) \<le> N"
    by (simp add: run_inv_def split: if_splits)
  moreover from inv have "N \<le> iteration (state c) \<longrightarrow>
      should_continue_research (state c) = Inr ''synthesizer''"
    by (simp add: run_inv_def should_continue_research_def)
  moreover from tools_step [OF inv, of a]
  have "N \<le> iteration (state c) \<and> next_node c = Tools \<longrightarrow>
      (\<exists>c'. graph_step a c = Inr c' \<and> next_node c' = Synthesizer)"
    by auto
  ultimately show ?thesis by blast
qed

theorem iteration_never_exceeds_bound_witness:
  "(1::int) \<le> 1 \<and> (1::int) \<le> 10 \<and>
   (\<exists>c. graph_steps (scripted asks_once) 2 (initial_config ''What is new in AI?'' (Some 1)) = Inr c \<and>
     next_node c = Tools \<and> iteration (state c) = 1 \<and>
     should_continue_research (state c) = Inr ''synthesizer'' \<and>
     (\<exists>c'. graph_step (scripted asks_once) c = Inr c' \<and> next_node c' = Synthesizer))"
proof -
  have "\<exists>c. graph_steps (scripted asks_once) 2 (initial_config ''What is new in AI?'' (Some 1)) = Inr c \<and>
          next_node c = Tools \<and> iteration (state c) = 1"
    by (simp add: numeral_2_eq_2 run_defs asks_once_def)
  then obtain c where
    c: "graph_steps (scripted asks_once) 2 (initial_config ''What is new in AI?'' (Some 1)) = Inr c"
    and t: "next_node c = Tools" and i: "iteration (state c) = 1"
    by blast
  from iteration_never_exceeds_bound [OF _ _ c] t i c show ?thesis
    by auto
qed

text \<open>
  C2. Take a completed run with \<open>max_iterations = N\<close>, \<open>1 \<le> N \<le> 10\<close>. Of the passes
  through the researcher, at most one happens with \<open>iteration\<close> at \<open>N\<close> or beyond, so the
  researcher is not entered a second time after the \<open>N\<close>-th increment, and a pass
  through the tools node with \<open>iteration\<close> at \<open>N\<close> or beyond is followed by the
  synthesizer; and
  \<open>findings_count\<close> of the result is the number of passes through the synthesizer, and
  is at least 1.
\<close>

theorem findings_count_is_synthesis_passes:
  assumes "1 \<le> N" and "N \<le> 10" and "research a q (Some N) = Inr r"
  shows "\<exists>c. invoke a q (Some N) = Inr c \<and>
           length (filter (\<lambda>x. fst x = Researcher \<and> N \<le> snd x) (history c)) \<le> 1 \<and>
           (\<forall>i. Suc i < length (history c) \<and> fst (history c ! i) = Tools \<and>
                N \<le> snd (history c ! i) \<longrightarrow>
              fst (history c ! Suc i) = Synthesizer) \<and>
           res_findings_count r = int (visits Synthesizer c) \<and>
           1 \<le> res_findings_count r"
proof -
  from research_invoke [OF assms(3)] obtain c where
    c: "invoke a q (Some N) = Inr c" and
    f: "res_findings_count r = int (length (findings (state c)))"
    by blast
  from invoke_inv [OF c] have e: "next_node c = END" and inv: "run_inv (Some N) c"
    by simp_all
  have "length (filter (\<lambda>x. fst x = Researcher \<and> N \<le> snd x) (history c)) \<le> 1"
  proof (cases "N \<le> 1")
    case True
    with inv e have "visits Researcher c = 1"
      by (simp add: run_inv_def met_after_planner_def)
    with filter_conj_le [of "\<lambda>x. fst x = Researcher" "\<lambda>x. N \<le> snd x" "history c"]
    show ?thesis by (simp add: visits_def)
  next
    case False
    from inv have "\<forall>x\<in>set (history c). snd x = 1"
      by (auto simp: run_inv_def)
    with False have "filter (\<lambda>x. fst x = Researcher \<and> N \<le> snd x) (history c) = []"
      by (auto simp: filter_empty_conv)
    then show ?thesis by simp
  qed
  moreover from inv e f have "res_findings_count r = int (visits Synthesizer c)"
    and "1 \<le> res_findings_count r"
    by (simp_all add: run_inv_def)
  moreover from invoke_tools_exit [OF c]
  have "\<forall>i. Suc i < length (history c) \<and> fst (history c ! i) = Tools \<and>
          N \<le> snd (history c ! i) \<longrightarrow>
        fst (history c ! Suc i) = Synthesizer"
    by (simp add: tools_exit_inv_def)
  ultimately show ?thesis using c by blast
qed

theorem findings_count_is_synthesis_passes_witness:
  "(1::int) \<le> 1 \<and> (1::int) \<le> 10 \<and>
   research (scripted asks_once) ''What is new in AI?'' (Some 1) =
     Inr \<lparr>res_query = ''What is new in AI?'', res_report = ''ok'', res_iterations = 1,
          res_findings_count = 1\<rparr> \<and>
   (\<exists>c. invoke (scripted asks_once) ''What is new in AI?'' (Some 1) = Inr c \<and>
      history c = [(Planner, 1), (Researcher, 1), (Tools, 1), (Synthesizer, 1)] \<and>
      length (filter (\<lambda>x. fst x = Researcher \<and> 1 \<le> snd x) (history c)) \<le> 1 \<and>
      (\<forall>i. Suc i < length (history c) \<and> fst (history c ! i) = Tools \<and>
           1 \<le> snd (history c ! i) \<longrightarrow>
         fst (history c ! Suc i) = Synthesizer) \<and>
      visits Synthesizer c = 1)"
proof -
  let ?a = "scripted asks_once" and ?q = "''What is new in AI?''"
  have "\<exists>c. invoke ?a ?q (Some 1) = Inr c \<and>
      history c = [(Planner, 1), (Researcher, 1), (Tools, 1), (Synthesizer, 1)]"
    by (simp add: invoke_def eval_nat_numeral run_defs asks_once_def)
  then obtain c where c: "invoke ?a ?q (Some 1) = Inr c"
    and h: "history c = [(Planner, 1), (Researcher, 1), (Tools, 1), (Synthesizer, 1)]"
    by blast
  from findings_count_is_synthesis_passes [OF _ _ asks_once_run] c
  have "length (filter (\<lambda>x. fst x = Researcher \<and> 1 \<le> snd x) (history c)) \<le> 1"
    and "\<forall>i. Suc i < length (history c) \<and> fst (history c ! i) = Tools \<and>
           1 \<le> snd (history c ! i) \<longrightarrow>
         fst (history c ! Suc i) = Synthesizer"
    and "visits Synthesizer c = 1"
    by simp_all
  with c h asks_once_run show ?thesis by simp
qed

lemma graph_step_iteration:
  assumes "graph_step a c = Inr c'"
  shows "iteration (state c') = iteration (state c) + (if next_node c = Planner then 1 else 0)"
proof (cases "next_node c")
  case Planner
  with graph_step_Planner [OF assms] show ?thesis by (auto simp: arrive_simps)
next
  case Researcher
  with graph_step_Researcher [OF assms] show ?thesis by (auto simp: arrive_simps)
next
  case Tools
  with graph_step_Tools [OF assms] show ?thesis by (auto simp: arrive_simps)
next
  case Synthesizer
  with graph_step_Synthesizer [OF assms] show ?thesis by (auto simp: arrive_simps)
next
  case END
  with graph_step_END [OF assms] show ?thesis by simp
qed

lemma asking_model_loops:
  assumes asks: "\<forall>t ms. \<exists>ct tcs. llm_invoke a t ms = Inr (AIMessage ct tcs) \<and> tcs \<noteq> []"
    and N: "2 \<le> N"
  shows "run_inv (Some N) c \<Longrightarrow> next_node c \<in> {Planner, Researcher, Tools} \<Longrightarrow>
         run_graph a k c = Inl (recursion_error a)"
proof (induction k arbitrary: c)
  case 0
  then show ?case by auto
next
  case (Suc k)
  from asks have llm: "\<forall>t ms. \<exists>r. llm_invoke a t ms = Inr r" by blast
  have "\<exists>c'. graph_step a c = Inr c' \<and> next_node c' \<in> {Planner, Researcher, Tools}"
  proof (cases "next_node c")
    case Planner
    with model_step [OF _ llm, of c] obtain c' where s: "graph_step a c = Inr c'" by auto
    with graph_step_Planner [OF s Planner] show ?thesis by (auto simp: arrive_simps)
  next
    case Researcher
    with model_step [OF _ llm, of c] obtain c' where s: "graph_step a c = Inr c'" by auto
    from graph_step_Researcher [OF s Researcher] have "next_node c' \<in> {Tools, Synthesizer}"
      by (auto simp: arrive_simps)
    moreover have "next_node c' \<noteq> Synthesizer"
    proof
      assume y: "next_node c' = Synthesizer"
      from asks obtain ct tcs where
        r: "llm_invoke a (tick c) (SystemMessage researcher_prompt # messages (state c)) =
              Inr (AIMessage ct tcs)" and ne: "tcs \<noteq> []"
        by blast
      from s Researcher r ne have "next_node c' = Tools"
        by (auto simp: graph_step_def researcher_def follow_def tools_condition_def arrive_simps)
      with y show False by simp
    qed
    ultimately show ?thesis using s by auto
  next
    case Tools
    from Suc.prems(1) have "iteration (state c) = 1" using Tools by (simp add: run_inv_def)
    with tools_step [OF Suc.prems(1) Tools, of a] N show ?thesis by auto
  next
    case Synthesizer
    with Suc.prems show ?thesis by simp
  next
    case END
    with Suc.prems show ?thesis by simp
  qed
  then obtain c' where s: "graph_step a c = Inr c'"
    and n: "next_node c' \<in> {Planner, Researcher, Tools}" by blast
  from run_inv_step [OF Suc.prems(1) s] have "run_inv (Some N) c'" .
  from Suc.IH [OF this n] s Suc.prems(2) show ?case by auto
qed

text \<open>
  C3. Only the planner changes \<open>iteration\<close>, by one; a completed run has passed the
  planner exactly once and returns \<open>iterations = 1\<close>. So with \<open>max_iterations \<ge> 2\<close> the
  check after the tools node answers \<open>researcher\<close> in every configuration a run reaches
  and the step goes back to the researcher; a completed run has entered the synthesizer
  from the researcher, on an answer of the model without tool calls; and a model that asks
  for a tool in every answer is stopped by the executor's recursion limit only.
\<close>

theorem planner_runs_once:
  "(graph_step a c0 = Inr c1 \<longrightarrow>
      iteration (state c1) = iteration (state c0) + (if next_node c0 = Planner then 1 else 0)) \<and>
   (research a q mi = Inr r \<longrightarrow>
      res_iterations r = 1 \<and> (\<exists>c. invoke a q mi = Inr c \<and> visits Planner c = 1)) \<and>
   (2 \<le> N \<and> graph_steps a k (initial_config q (Some N)) = Inr c \<and> next_node c = Tools \<longrightarrow>
      should_continue_research (state c) = Inr ''researcher'' \<and>
      (\<exists>c'. graph_step a c = Inr c' \<and> next_node c' = Researcher)) \<and>
   (2 \<le> N \<and> invoke a q (Some N) = Inr c2 \<longrightarrow>
      (\<exists>h. history c2 = h @ [(Researcher, 1), (Synthesizer, 1)])) \<and>
   (2 \<le> N \<and> (\<forall>t ms. \<exists>ct tcs. llm_invoke a t ms = Inr (AIMessage ct tcs) \<and> tcs \<noteq> []) \<longrightarrow>
      invoke a q (Some N) = Inl (recursion_error a))"
proof (intro conjI impI)
  assume "graph_step a c0 = Inr c1"
  then show "iteration (state c1) = iteration (state c0) + (if next_node c0 = Planner then 1 else 0)"
    by (rule graph_step_iteration)
next
  assume r: "research a q mi = Inr r"
  from research_invoke [OF r] obtain c where
    c: "invoke a q mi = Inr c" and i: "res_iterations r = iteration (state c)" by blast
  from invoke_inv [OF c] have e: "next_node c = END" and inv: "run_inv mi c" by simp_all
  from inv e i show "res_iterations r = 1" by (simp add: run_inv_def)
  from inv e have "visits Planner c = 1" by (simp add: run_inv_def)
  with c show "\<exists>c. invoke a q mi = Inr c \<and> visits Planner c = 1" by blast
next
  assume h: "2 \<le> N \<and> graph_steps a k (initial_config q (Some N)) = Inr c \<and> next_node c = Tools"
  then have inv: "run_inv (Some N) c" by (blast intro: reached_inv)
  with h have i: "iteration (state c) = 1" by (simp add: run_inv_def)
  with inv h show "should_continue_research (state c) = Inr ''researcher''"
    by (simp add: run_inv_def should_continue_research_def)
  from tools_step [OF inv, of a] h i
  show "\<exists>c'. graph_step a c = Inr c' \<and> next_node c' = Researcher" by auto
next
  assume h: "2 \<le> N \<and> invoke a q (Some N) = Inr c2"
  with invoke_inv [of a q "Some N" c2] have "next_node c2 = END" "run_inv (Some N) c2" by simp_all
  with h show "\<exists>h. history c2 = h @ [(Researcher, 1), (Synthesizer, 1)]"
    by (simp add: run_inv_def met_after_planner_def)
next
  assume h: "2 \<le> N \<and> (\<forall>t ms. \<exists>ct tcs. llm_invoke a t ms = Inr (AIMessage ct tcs) \<and> tcs \<noteq> [])"
  then have asks: "\<forall>t ms. \<exists>ct tcs. llm_invoke a t ms = Inr (AIMessage ct tcs) \<and> tcs \<noteq> []"
    and N: "2 \<le> N" by simp_all
  have "next_node (initial_config q (Some N)) \<in> {Planner, Researcher, Tools}"
    by (simp add: initial_config_def)
  with asking_model_loops [OF asks N run_inv_initial]
  have "run_graph a (recursion_limit a) (initial_config q (Some N)) = Inl (recursion_error a)" .
  then show "invoke a q (Some N) = Inl (recursion_error a)" by (simp add: invoke_def)
qed


theorem planner_runs_once_witness:
  "research (scripted asks_once) ''What is new in AI?'' (Some 3) =
     Inr \<lparr>res_query = ''What is new in AI?'', res_report = ''ok'', res_iterations = 1,
          res_findings_count = 1\<rparr> \<and>
   (\<exists>c. graph_steps (scripted asks_once) 2 (initial_config ''What is new in AI?'' (Some 3)) = Inr c \<and>
      next_node c = Tools \<and>
      should_continue_research (state c) = Inr ''researcher'' \<and>
      (\<exists>c'. graph_step (scripted asks_once) c = Inr c' \<and> next_node c' = Researcher \<and>
         iteration (state c') = iteration (state c))) \<and>
   (\<exists>c. invoke (scripted asks_once) ''What is new in AI?'' (Some 3) = Inr c \<and>
      visits Planner c = 1 \<and>
      history c = [(Planner, 1), (Researcher, 1), (Tools, 1), (Researcher, 1), (Synthesizer, 1)]) \<and>
   invoke (scripted always_asks) ''What is new in AI?'' (Some 3) =
     Inl (Exception ''Recursion limit of 25 reached'')"
proof -
  let ?a = "scripted asks_once" and ?q = "''What is new in AI?''"
  have run: "research ?a ?q (Some 3) =
     Inr \<lparr>res_query = ?q, res_report = ''ok'', res_iterations = 1, res_findings_count = 1\<rparr>"
    by (simp add: research_def invoke_def eval_nat_numeral run_defs asks_once_def)
  have "\<exists>c. graph_steps ?a 2 (initial_config ?q (Some 3)) = Inr c \<and> next_node c = Tools"
    by (simp add: eval_nat_numeral run_defs asks_once_def)
  then obtain c where c: "graph_steps ?a 2 (initial_config ?q (Some 3)) = Inr c"
    and t: "next_node c = Tools" by blast
  have "\<exists>c. invoke ?a ?q (Some 3) = Inr c \<and>
      history c = [(Planner, 1), (Researcher, 1), (Tools, 1), (Researcher, 1), (Synthesizer, 1)]"
    by (simp add: invoke_def eval_nat_numeral run_defs asks_once_def)
  then obtain c2 where c2: "invoke ?a ?q (Some 3) = Inr c2"
    and h: "history c2 = [(Planner, 1), (Researcher, 1), (Tools, 1), (Researcher, 1), (Synthesizer, 1)]"
    by blast
  have asks: "\<forall>t ms. \<exists>ct tcs. llm_invoke (scripted always_asks) t ms = Inr (AIMessage ct tcs) \<and> tcs \<noteq> []"
    by (simp add: scripted_def always_asks_def)
  have lim: "recursion_error (scripted always_asks) = Exception ''Recursion limit of 25 reached''"
    by (simp add: scripted_def)
  from planner_runs_once [of ?a c c ?q "Some 3" _ 3 2 c c2] c t
  have sc: "should_continue_research (state c) = Inr ''researcher''"
    and "\<exists>c'. graph_step ?a c = Inr c' \<and> next_node c' = Researcher"
    by simp_all
  then obtain c' where s: "graph_step ?a c = Inr c'" and n: "next_node c' = Researcher"
    by blast
  from planner_runs_once [of ?a c c' ?q "Some 3" _ 3 2 c c2] s t
  have i: "iteration (state c') = iteration (state c)" by simp
  from planner_runs_once [of ?a c c' ?q "Some 3" _ 3 2 c c2] run
  have "\<exists>c. invoke ?a ?q (Some 3) = Inr c \<and> visits Planner c = 1" by simp
  with c2 have v: "visits Planner c2 = 1" by auto
  from planner_runs_once [of "scripted always_asks" c c ?q "Some 3" _ 3 2 c c2] asks lim
  have loops: "invoke (scripted always_asks) ?q (Some 3) =
      Inl (Exception ''Recursion limit of 25 reached'')" by simp
  from c t sc s n i have "\<exists>c. graph_steps ?a 2 (initial_config ?q (Some 3)) = Inr c \<and>
      next_node c = Tools \<and>
      should_continue_research (state c) = Inr ''researcher'' \<and>
      (\<exists>c'. graph_step ?a c = Inr c' \<and> next_node c' = Researcher \<and>
         iteration (state c') = iteration (state c))" by blast
  moreover from c2 v h have "\<exists>c. invoke ?a ?q (Some 3) = Inr c \<and> visits Planner c = 1 \<and>
      history c = [(Planner, 1), (Researcher, 1), (Tools, 1), (Researcher, 1), (Synthesizer, 1)]"
    by blast
  ultimately show ?thesis using run loops by blast
qed

section \<open>Failures of the tools and of the model\<close>













lemma model_call_raises_step:
  "model_call_raises a c e \<Longrightarrow> graph_step a c = Inl e \<and> next_node c \<noteq> END"
  by (auto simp: model_call_raises_def graph_step_def planner_def researcher_def synthesizer_def)

lemma raise_aborts_run:
  assumes c: "graph_steps a k (initial_config q mi) = Inr c" and k: "k < recursion_limit a"
    and e: "model_call_raises a c e"
  shows "research a q mi = Inl e"
proof -
  from model_call_raises_step [OF e] have s: "graph_step a c = Inl e" and n: "next_node c \<noteq> END"
    by simp_all
  define j where "j = recursion_limit a - Suc k"
  with k have j: "recursion_limit a = k + Suc j" by simp
  from run_graph_skip [OF c n, of "Suc j"] s n have "run_graph a (k + Suc j) (initial_config q mi) = Inl e"
    by simp
  with j have "invoke a q mi = Inl e"
    by (simp add: invoke_def)
  then show ?thesis by (simp add: research_def)
qed

text \<open>
  C5, as the code has it. Let the model call of the planner, of the researcher or of the
  synthesizer raise \<open>e\<close> in a configuration the run reaches within the recursion limit.
  Then \<open>research\<close> raises \<open>e\<close>; \<open>POST /research\<close> answers with the HTTP error 500 and
  the detail \<open>Research failed: \<close> followed by \<open>str(e)\<close>, and no report; and
  \<open>POST /research/stream\<close> answers with status 200 and a stream of two chunks, the
  starting line and \<open>data: Error: \<close> followed by \<open>str(e)\<close>, and no report either.
\<close>

theorem model_failure_reported:
  assumes "graph_steps a k (initial_config (query request) (req_max_iterations request)) = Inr c"
    and "k < recursion_limit a"
    and "model_call_raises a c e"
  shows "research a (query request) (req_max_iterations request) = Inl e \<and>
     conduct_research (Some a) start_time end_time request =
       Inl (HTTPException 500 (''Research failed: '' @ str e)) \<and>
     conduct_research_streaming (Some a) request =
       \<lparr>stream_status = 200, media_type = ''text/event-stream'',
        body = [''data: Starting research for: '' @ query request @ ''\<newline>\<newline>'',
                ''data: Error: '' @ str e @ ''\<newline>\<newline>'']\<rparr>"
proof -
  from raise_aborts_run [OF assms]
  have "research a (query request) (req_max_iterations request) = Inl e" .
  then show ?thesis
    by (simp add: conduct_research_def conduct_research_streaming_def StreamingResponse_def
        generate_def)
qed

theorem model_failure_reported_witness:
  "graph_steps (scripted model_down) 0
     (initial_config (query \<lparr>query = ''What is new in AI?'', req_max_iterations = Some 3\<rparr>)
        (req_max_iterations \<lparr>query = ''What is new in AI?'', req_max_iterations = Some 3\<rparr>)) =
     Inr (initial_config ''What is new in AI?'' (Some 3)) \<and>
   0 < recursion_limit (scripted model_down) \<and>
   model_call_raises (scripted model_down) (initial_config ''What is new in AI?'' (Some 3))
     (Exception ''quota exceeded'') \<and>
   conduct_research (Some (scripted model_down)) 10 12
     \<lparr>query = ''What is new in AI?'', req_max_iterations = Some 3\<rparr> =
     Inl (HTTPException 500 ''Research failed: quota exceeded'') \<and>
   body (conduct_research_streaming (Some (scripted model_down))
     \<lparr>query = ''What is new in AI?'', req_max_iterations = Some 3\<rparr>) =
     [''data: Starting research for: What is new in AI?\<newline>\<newline>'',
      ''data: Error: quota exceeded\<newline>\<newline>'']"
proof -
  let ?r = "\<lparr>query = ''What is new in AI?'', req_max_iterations = Some 3\<rparr>"
  have 1: "graph_steps (scripted model_down) 0
      (initial_config (query ?r) (req_max_iterations ?r)) =
      Inr (initial_config ''What is new in AI?'' (Some 3))"
    by simp
  have 2: "0 < recursion_limit (scripted model_down)"
    by (simp add: scripted_def)
  have 3: "model_call_raises (scripted model_down) (initial_config ''What is new in AI?'' (Some 3))
      (Exception ''quota exceeded'')"
    by (simp add: model_call_raises_def initial_config_def scripted_def model_down_def)
  from model_failure_reported [OF 1 2 3, of 10 12] 1 2 3 show ?thesis
    by simp
qed

text \<open>
  The streaming endpoint does not answer 500 when the model raises: with the model out of
  order at the first call, the response has status 200 and carries the error as a chunk.
\<close>

theorem streaming_failure_is_not_500:
  "model_call_raises (scripted model_down) (initial_config ''What is new in AI?'' (Some 3))
     (Exception ''quota exceeded'') \<and>
   research (scripted model_down) ''What is new in AI?'' (Some 3) =
     Inl (Exception ''quota exceeded'') \<and>
   stream_status (conduct_research_streaming (Some (scripted model_down))
     \<lparr>query = ''What is new in AI?'', req_max_iterations = Some 3\<rparr>) \<noteq> 500 \<and>
   conduct_research_streaming (Some (scripted model_down))
     \<lparr>query = ''What is new in AI?'', req_max_iterations = Some 3\<rparr> =
     \<lparr>stream_status = 200, media_type = ''text/event-stream'',
      body = [''data: Starting research for: What is new in AI?\<newline>\<newline>'',
              ''data: Error: quota exceeded\<newline>\<newline>'']\<rparr>"
proof -
  have r: "research (scripted model_down) ''What is new in AI?'' (Some 3) =
      Inl (Exception ''quota exceeded'')"
    by (simp add: research_def invoke_def eval_nat_numeral run_defs model_down_def)
  have "model_call_raises (scripted model_down) (initial_config ''What is new in AI?'' (Some 3))
      (Exception ''quota exceeded'')"
    by (simp add: model_call_raises_def initial_config_def scripted_def model_down_def)
  with r show ?thesis
    by (simp add: conduct_research_streaming_def StreamingResponse_def generate_def)
qed

section \<open>The event stream\<close>














section \<open>The service key\<close>

lemma getenv_default_unset:
  "env ''API_KEY'' = None \<Longrightarrow>
   verify_api_key env x =
     (if x = ''your-secret-key'' then Inr x else Inl (HTTPException 401 ''Invalid API key''))"
  by (simp add: verify_api_key_def)

lemma lifespan_ignores_API_KEY: "lifespan connect (env(''API_KEY'' := v)) = lifespan connect env"
  by (simp add: lifespan_def ResearchAssistant_def)

text \<open>
  C10. With \<open>API_KEY\<close> unset in the environment, \<open>verify_api_key\<close> accepts the header
  value \<open>your-secret-key\<close> and no other, and answers every other value with the HTTP
  error 401. The startup of this module does not read \<open>API_KEY\<close>: \<open>lifespan\<close> gives
  the same with the variable unset as with it set to any key, so a missing key does not
  fail the startup.
\<close>

theorem unset_API_KEY_enables_fallback:
  assumes "env ''API_KEY'' = None"
  shows "(verify_api_key env x = Inr x \<longleftrightarrow> x = ''your-secret-key'') \<and>
     (x \<noteq> ''your-secret-key'' \<longrightarrow>
        verify_api_key env x = Inl (HTTPException 401 ''Invalid API key'')) \<and>
     lifespan connect env = lifespan connect (env(''API_KEY'' \<mapsto> key))"
proof -
  from getenv_default_unset [of env x, OF assms]
  have "verify_api_key env x = Inr x \<longleftrightarrow> x = ''your-secret-key''"
    and "x \<noteq> ''your-secret-key'' \<longrightarrow>
        verify_api_key env x = Inl (HTTPException 401 ''Invalid API key'')"
    by simp_all
  moreover have "lifespan connect env = lifespan connect (env(''API_KEY'' \<mapsto> key))"
    by (simp only: lifespan_ignores_API_KEY)
  ultimately show ?thesis by simp
qed

theorem unset_API_KEY_enables_fallback_witness:
  "[''GOOGLE_API_KEY'' \<mapsto> ''g-123''] ''API_KEY'' = None \<and>
   verify_api_key [''GOOGLE_API_KEY'' \<mapsto> ''g-123''] ''your-secret-key'' = Inr ''your-secret-key'' \<and>
   ''letmein'' \<noteq> ''your-secret-key'' \<and>
   verify_api_key [''GOOGLE_API_KEY'' \<mapsto> ''g-123''] ''letmein'' =
     Inl (HTTPException 401 ''Invalid API key'') \<and>
   lifespan (\<lambda>k. Inr (scripted never_asks)) [''GOOGLE_API_KEY'' \<mapsto> ''g-123''] =
     Inr (Some (scripted never_asks)) \<and>
   lifespan (\<lambda>k. Inr (scripted never_asks))
     [''GOOGLE_API_KEY'' \<mapsto> ''g-123'', ''API_KEY'' \<mapsto> ''s3cret''] =
     Inr (Some (scripted never_asks))"
proof -
  let ?env = "[''GOOGLE_API_KEY'' \<mapsto> ''g-123'']"
  have u: "?env ''API_KEY'' = None" by simp
  from unset_API_KEY_enables_fallback [of ?env "''your-secret-key''", OF u]
  have 1: "verify_api_key ?env ''your-secret-key'' = Inr ''your-secret-key''" by simp
  have n: "''letmein'' \<noteq> ''your-secret-key''" by simp
  from unset_API_KEY_enables_fallback [of ?env "''letmein''", OF u] n
  have 2: "verify_api_key ?env ''letmein'' = Inl (HTTPException 401 ''Invalid API key'')"
    by simp
  have 3: "lifespan (\<lambda>k. Inr (scripted never_asks)) ?env = Inr (Some (scripted never_asks))"
    by (simp add: lifespan_def ResearchAssistant_def)
  from unset_API_KEY_enables_fallback
    [of ?env "''letmein''" "\<lambda>k. Inr (scripted never_asks)" "''s3cret''", OF u] 3
  have 4: "lifespan (\<lambda>k. Inr (scripted never_asks))
     [''GOOGLE_API_KEY'' \<mapsto> ''g-123'', ''API_KEY'' \<mapsto> ''s3cret''] =
     Inr (Some (scripted never_asks))"
    by simp
  from u 1 n 2 3 4 show ?thesis by - (intro conjI, assumption+)
qed

section \<open>The tool result schema\<close>

lemma import_schemas_raises:
  "import_schemas =
     Inl (Exception (''field_validator() got an unexpected keyword argument '' @
                     CHR 0x27 # ''pre'' @ [CHR 0x27]))"
  by (simp add: import_schemas_def ToolCallResult_class_def field_validator_def)

text \<open>
  C7. A \<open>ToolCallResult\<close> with \<open>result=None\<close> is meant to have the empty string as
  its \<open>result\<close>; that is what \<open>allow_empty_result\<close> computes and what the test
  expects. But the validator is registered with the keyword \<open>pre\<close>, which the decorator
  does not know: the import of the module raises, and no \<open>ToolCallResult\<close> is built,
  with \<open>None\<close> or with any other value. Registered with \<open>mode="before"\<close>, the
  decorator returns.
\<close>

theorem tool_call_result_cannot_be_built:
  "ToolCallResult name ok v =
     Inl (Exception (''field_validator() got an unexpected keyword argument '' @
                     CHR 0x27 # ''pre'' @ [CHR 0x27])) \<and>
   ToolCallResult ''web_search'' True PyNone \<noteq>
     Inr \<lparr>tool_name = ''web_search'', tool_success = True, result = PyStr []\<rparr> \<and>
   field_validator ''result'' [(''mode'', KwStr ''before'')] = Inr ''before''"
  by (simp add: ToolCallResult_def import_schemas_raises field_validator_def)

section \<open>Combining findings\<close>

lemma list_of_set_distinct: "distinct (list_of_set h xs) \<and> set (list_of_set h xs) = set xs"
  by (simp add: list_of_set_def)

lemma position_in_distinct:
  assumes "distinct ys" and "i < length ys"
  shows "length (takeWhile (\<lambda>y. y \<noteq> ys ! i) ys) = i"
proof -
  have "takeWhile (\<lambda>y. y \<noteq> ys ! i) ys = take i ys"
  proof (rule takeWhile_eq_take_P_nth)
    fix j
    assume "j < i" and "j < length ys"
    with assms show "ys ! j \<noteq> ys ! i"
      by (simp add: nth_eq_iff_index_eq)
  next
    show "\<not> ys ! i \<noteq> ys ! i" by simp
  qed
  with assms(2) show ?thesis by simp
qed

lemma every_order_has_a_rank:
  assumes d: "distinct ys" and s: "set ys = set xs"
  shows "\<exists>h. list_of_set h xs = ys"
proof -
  define h where "h = (\<lambda>x. length (takeWhile (\<lambda>y. y \<noteq> x) ys))"
  have m: "map h ys = [0..<length ys]"
    by (rule nth_equalityI) (simp_all add: h_def position_in_distinct [OF d])
  then have "sorted (map h ys)" by simp
  moreover from m have "distinct (map h ys)" by simp
  then have "inj_on h (set ys)" by (simp add: distinct_map)
  with s have "inj_on h (set (remdups xs))" by simp
  moreover from d s have "mset (remdups xs) = mset ys"
    by (simp add: set_eq_iff_mset_eq_distinct [symmetric])
  ultimately have "sort_key h (remdups xs) = ys"
    by (intro sort_key_inj_key_eq)
  then show ?thesis by (auto simp: list_of_set_def)
qed

text \<open>
  C8. \<open>summarize_findings\<close> returns the elements of its list, each exactly once, joined
  by a line \<open>---\<close>; the order of the elements is the order of the set, which is not
  fixed: every order of the distinct elements is the result under some order of the set.
\<close>

theorem summarize_findings_joins_distinct:
  "(\<exists>ys. distinct ys \<and> set ys = set items \<and>
      summarize_findings h items = join ''\<newline>---\<newline>'' ys) \<and>
   (\<forall>ys. distinct ys \<and> set ys = set items \<longrightarrow>
      (\<exists>h'. summarize_findings h' items = join ''\<newline>---\<newline>'' ys))"
proof (intro conjI allI impI)
  have "distinct (list_of_set h items) \<and> set (list_of_set h items) = set items \<and>
      summarize_findings h items = join ''\<newline>---\<newline>'' (list_of_set h items)"
    by (simp add: list_of_set_distinct summarize_findings_def)
  then show "\<exists>ys. distinct ys \<and> set ys = set items \<and>
      summarize_findings h items = join ''\<newline>---\<newline>'' ys"
    by (rule exI [where x = "list_of_set h items"])
next
  fix ys
  assume "distinct ys \<and> set ys = set items"
  then obtain h' where "list_of_set h' items = ys"
    using every_order_has_a_rank [of ys items] by blast
  then have "summarize_findings h' items = join ''\<newline>---\<newline>'' ys"
    by (simp add: summarize_findings_def)
  then show "\<exists>h'. summarize_findings h' items = join ''\<newline>---\<newline>'' ys"
    by (rule exI [where x = h'])
qed

theorem summarize_findings_joins_distinct_witness:
  "summarize_findings length [''tides'', ''moon'', ''tides''] = ''moon\<newline>---\<newline>tides'' \<and>
   distinct [''tides'', ''moon''] \<and>
   set [''tides'', ''moon''] = set [''tides'', ''moon'', ''tides''] \<and>
   (\<exists>h'. summarize_findings h' [''tides'', ''moon'', ''tides''] = ''tides\<newline>---\<newline>moon'')"
proof -
  have 1: "summarize_findings length [''tides'', ''moon'', ''tides''] = ''moon\<newline>---\<newline>tides''"
    by (simp add: summarize_findings_def list_of_set_def)
  have 2: "distinct [''tides'', ''moon'']" by simp
  have 3: "set [''tides'', ''moon''] = set [''tides'', ''moon'', ''tides'']"
    by (simp add: insert_commute)
  from summarize_findings_joins_distinct [of "[''tides'', ''moon'', ''tides'']" length] 2 3
  have "\<exists>h'. summarize_findings h' [''tides'', ''moon'', ''tides''] =
      join ''\<newline>---\<newline>'' [''tides'', ''moon'']"
    by (elim conjE allE [where x = "[''tides'', ''moon'']"] impE) (intro conjI, assumption+)
  then have 4: "\<exists>h'. summarize_findings h' [''tides'', ''moon'', ''tides''] = ''tides\<newline>---\<newline>moon''"
    by simp
  from 1 2 3 4 show ?thesis by - (intro conjI, assumption+)
qed

section \<open>Validation of the request\<close>

lemma str_field_accepts:
  "(\<exists>q. str_field lo hi v = Inr q) \<longleftrightarrow>
   (\<exists>s. v = Some (JStr s) \<and> lo \<le> length s \<and>
      (case hi of None \<Rightarrow> True | Some n \<Rightarrow> length s \<le> n))"
  by (auto simp: str_field_def split: option.splits json.splits)

lemma str_field_value:
  "str_field lo hi v = Inr q \<Longrightarrow> v = Some (JStr q) \<and> lo \<le> length q"
  by (auto simp: str_field_def split: option.splits json.splits if_splits)

lemma int_value_cases:
  "int_value p v = Inr i \<longleftrightarrow>
     v = JInt i \<or> v = JBool True \<and> i = 1 \<or> v = JBool False \<and> i = 0 \<or>
     v = JFloat (of_int i) \<or> (\<exists>s. v = JStr s \<and> p s = Some i)"
proof (cases v)
  case (JFloat x)
  have "x = of_int \<lfloor>x\<rfloor> \<and> \<lfloor>x\<rfloor> = i \<longleftrightarrow> x = of_int i"
    by auto
  with JFloat show ?thesis by (auto simp: int_value_def)
qed (auto simp: int_value_def split: option.splits)

lemma optional_int_field_Some:
  "x \<noteq> JNull \<Longrightarrow>
   optional_int_field p d lo hi (Some x) =
     (case int_value p x of
        Inl e \<Rightarrow> Inl e
      | Inr i \<Rightarrow>
          if i < lo then Inl GreaterThanEqual
          else if hi < i then Inl LessThanEqual
          else Inr (Some i))"
  by (cases x) (simp_all add: optional_int_field_def)

lemma optional_int_field_accepts:
  assumes "v \<noteq> Some JNull"
  shows "(\<exists>m. optional_int_field p d lo hi v = Inr m) \<longleftrightarrow>
     v = None \<or> (\<exists>x i. v = Some x \<and> int_value p x = Inr i \<and> lo \<le> i \<and> i \<le> hi)"
proof (cases v)
  case None
  then show ?thesis by (simp add: optional_int_field_def)
next
  case (Some x)
  with assms have "x \<noteq> JNull" by simp
  from optional_int_field_Some [OF this] Some show ?thesis
    by (cases "int_value p x") (auto split: if_splits)
qed

lemma optional_int_field_value:
  assumes "v \<noteq> Some JNull" and "optional_int_field p d lo hi v = Inr m"
  shows "(v = None \<longrightarrow> m = Some d) \<and> (v \<noteq> None \<longrightarrow> (\<exists>i. m = Some i \<and> lo \<le> i \<and> i \<le> hi))"
proof (cases v)
  case None
  with assms show ?thesis by (simp add: optional_int_field_def)
next
  case (Some x)
  with assms have "x \<noteq> JNull" by simp
  from optional_int_field_Some [OF this, of p d lo hi] Some assms(2) show ?thesis
    by (cases "int_value p x") (auto split: if_splits)
qed

lemma validate_model_accepts:
  "(\<exists>r. validate_model fq fm raw = Inr r) \<longleftrightarrow>
   (\<exists>q. fq (raw_query raw) = Inr q) \<and> (\<exists>m. fm (raw_max_iterations raw) = Inr m)"
  by (cases "fq (raw_query raw)"; cases "fm (raw_max_iterations raw)")
     (simp_all add: validate_model_def)

lemma validate_model_value:
  "validate_model fq fm raw = Inr r \<Longrightarrow>
   fq (raw_query raw) = Inr (query r) \<and> fm (raw_max_iterations raw) = Inr (req_max_iterations r)"
  by (cases "fq (raw_query raw)"; cases "fm (raw_max_iterations raw)")
     (auto simp add: validate_model_def)

text \<open>
  C4, as the code has it by design, for \<open>ResearchRequest\<close> and a body whose
  \<open>max_iterations\<close> is not \<open>null\<close>. The validation accepts exactly when the query is a
  string of at least 5 characters (no upper bound is declared) and \<open>max_iterations\<close> is
  absent or is taken for an integer from 1 to 10: such an integer, \<open>true\<close>, a float
  with that value, or a string that reads as such an integer. An accepted request carries
  the query as given and a bound from 1 to 10, which is 3 when the field is absent. A
  rejected body is answered by \<open>POST /research\<close> with the error of the key check or with
  the validation errors, and the handler, which would call the orchestrator, does not run.
\<close>

theorem validation_accepts_within_bounds:
  assumes "raw_max_iterations raw \<noteq> Some JNull"
  shows "((\<exists>r. ResearchRequest str_to_int raw = Inr r) \<longleftrightarrow>
      (\<exists>s. raw_query raw = Some (JStr s) \<and> 5 \<le> length s) \<and>
      (raw_max_iterations raw = None \<or>
       (\<exists>i. 1 \<le> i \<and> i \<le> 10 \<and>
          (raw_max_iterations raw = Some (JInt i) \<or>
           raw_max_iterations raw = Some (JBool True) \<and> i = 1 \<or>
           raw_max_iterations raw = Some (JFloat (of_int i)) \<or>
           (\<exists>s. raw_max_iterations raw = Some (JStr s) \<and> str_to_int s = Some i))))) \<and>
   (ResearchRequest str_to_int raw = Inr r \<longrightarrow>
      raw_query raw = Some (JStr (query r)) \<and> 5 \<le> length (query r) \<and>
      (\<exists>i. req_max_iterations r = Some i \<and> 1 \<le> i \<and> i \<le> 10) \<and>
      (raw_max_iterations raw = None \<longrightarrow> req_max_iterations r = Some 3)) \<and>
   (ResearchRequest str_to_int raw = Inl errors \<longrightarrow>
      post_research str_to_int env research_agent start_time end_time x_api_key raw =
        (case verify_api_key env x_api_key of
           Inl e \<Rightarrow> Inl e
         | Inr k \<Rightarrow> Inl (RequestValidationError errors)))"
proof (intro conjI impI)
  have "(\<exists>x i. raw_max_iterations raw = Some x \<and> int_value str_to_int x = Inr i \<and> 1 \<le> i \<and> i \<le> 10) \<longleftrightarrow>
      (\<exists>i. 1 \<le> i \<and> i \<le> 10 \<and>
          (raw_max_iterations raw = Some (JInt i) \<or>
           raw_max_iterations raw = Some (JBool True) \<and> i = 1 \<or>
           raw_max_iterations raw = Some (JFloat (of_int i)) \<or>
           (\<exists>s. raw_max_iterations raw = Some (JStr s) \<and> str_to_int s = Some i)))"
    by (auto simp: int_value_cases)
  then show "(\<exists>r. ResearchRequest str_to_int raw = Inr r) \<longleftrightarrow>
      (\<exists>s. raw_query raw = Some (JStr s) \<and> 5 \<le> length s) \<and>
      (raw_max_iterations raw = None \<or>
       (\<exists>i. 1 \<le> i \<and> i \<le> 10 \<and>
          (raw_max_iterations raw = Some (JInt i) \<or>
           raw_max_iterations raw = Some (JBool True) \<and> i = 1 \<or>
           raw_max_iterations raw = Some (JFloat (of_int i)) \<or>
           (\<exists>s. raw_max_iterations raw = Some (JStr s) \<and> str_to_int s = Some i))))"
    by (simp add: ResearchRequest_def validate_model_accepts str_field_accepts
        optional_int_field_accepts [OF assms])
next
  assume a: "ResearchRequest str_to_int raw = Inr r"
  then have q: "str_field 5 None (raw_query raw) = Inr (query r)"
    and m: "optional_int_field str_to_int 3 1 10 (raw_max_iterations raw) = Inr (req_max_iterations r)"
    by (auto simp: ResearchRequest_def dest: validate_model_value)
  from str_field_value [OF q]
  show "raw_query raw = Some (JStr (query r))" and "5 \<le> length (query r)"
    by simp_all
  from optional_int_field_value [OF assms m]
  show "\<exists>i. req_max_iterations r = Some i \<and> 1 \<le> i \<and> i \<le> 10"
    by (cases "raw_max_iterations raw") auto
  assume "raw_max_iterations raw = None"
  with optional_int_field_value [OF assms m] show "req_max_iterations r = Some 3"
    by simp
next
  assume "ResearchRequest str_to_int raw = Inl errors"
  then show "post_research str_to_int env research_agent start_time end_time x_api_key raw =
        (case verify_api_key env x_api_key of
           Inl e \<Rightarrow> Inl e
         | Inr k \<Rightarrow> Inl (RequestValidationError errors))"
    by (simp add: post_research_def split: sum.split)
qed


theorem validation_accepts_within_bounds_witness:
  "raw_max_iterations \<lparr>raw_query = Some (JStr ''What is new in AI?''),
                       raw_max_iterations = Some (JStr ''5'')\<rparr> \<noteq> Some JNull \<and>
   ResearchRequest reads_five
     \<lparr>raw_query = Some (JStr ''What is new in AI?''), raw_max_iterations = Some (JStr ''5'')\<rparr> =
     Inr \<lparr>query = ''What is new in AI?'', req_max_iterations = Some 5\<rparr> \<and>
   ResearchRequest reads_five
     \<lparr>raw_query = Some (JStr ''What is new in AI?''), raw_max_iterations = None\<rparr> =
     Inr \<lparr>query = ''What is new in AI?'', req_max_iterations = Some 3\<rparr> \<and>
   ResearchRequest reads_five \<lparr>raw_query = Some (JStr ''bad''), raw_max_iterations = Some (JInt 2)\<rparr> =
     Inl [(''query'', StringTooShort)] \<and>
   post_research reads_five Map.empty (Some (scripted never_asks)) 0 1 ''your-secret-key''
     \<lparr>raw_query = Some (JStr ''bad''), raw_max_iterations = Some (JInt 2)\<rparr> =
     Inl (RequestValidationError [(''query'', StringTooShort)]) \<and>
   (\<nexists>r. ResearchRequest reads_five
     \<lparr>raw_query = Some (JStr ''Valid query here''), raw_max_iterations = Some (JInt 0)\<rparr> = Inr r) \<and>
   (\<nexists>r. ResearchRequest reads_five
     \<lparr>raw_query = Some (JStr ''Valid query here''), raw_max_iterations = Some (JFloat 2.5)\<rparr> = Inr r) \<and>
   (\<exists>r. ResearchRequest reads_five
     \<lparr>raw_query = Some (JStr ''Valid query here''), raw_max_iterations = Some (JBool True)\<rparr> = Inr r)"
proof -
  let ?five = "\<lparr>raw_query = Some (JStr ''What is new in AI?''), raw_max_iterations = Some (JStr ''5'')\<rparr>"
  let ?none = "\<lparr>raw_query = Some (JStr ''What is new in AI?''), raw_max_iterations = None\<rparr>"
  let ?bad = "\<lparr>raw_query = Some (JStr ''bad''), raw_max_iterations = Some (JInt 2)\<rparr>"
  let ?zero = "\<lparr>raw_query = Some (JStr ''Valid query here''), raw_max_iterations = Some (JInt 0)\<rparr>"
  let ?half = "\<lparr>raw_query = Some (JStr ''Valid query here''), raw_max_iterations = Some (JFloat 2.5)\<rparr>"
  let ?true = "\<lparr>raw_query = Some (JStr ''Valid query here''), raw_max_iterations = Some (JBool True)\<rparr>"
  have n5: "raw_max_iterations ?five \<noteq> Some JNull"
    and nb: "raw_max_iterations ?bad \<noteq> Some JNull"
    and nz: "raw_max_iterations ?zero \<noteq> Some JNull"
    and nh: "raw_max_iterations ?half \<noteq> Some JNull"
    and nt: "raw_max_iterations ?true \<noteq> Some JNull"
    by simp_all
  have 1: "ResearchRequest reads_five ?five =
      Inr \<lparr>query = ''What is new in AI?'', req_max_iterations = Some 5\<rparr>"
    by (simp add: ResearchRequest_def validate_model_def str_field_def optional_int_field_def
        int_value_def reads_five_def)
  have 2: "ResearchRequest reads_five ?none =
      Inr \<lparr>query = ''What is new in AI?'', req_max_iterations = Some 3\<rparr>"
    by (simp add: ResearchRequest_def validate_model_def str_field_def optional_int_field_def)
  have 3: "ResearchRequest reads_five ?bad = Inl [(''query'', StringTooShort)]"
    by (simp add: ResearchRequest_def validate_model_def str_field_def optional_int_field_def
        int_value_def field_errors_def)
  have k: "verify_api_key Map.empty ''your-secret-key'' = Inr ''your-secret-key''"
    by (simp add: verify_api_key_def)
  from validation_accepts_within_bounds
    [where raw = ?bad and str_to_int = reads_five and errors = "[(''query'', StringTooShort)]"
       and env = Map.empty and research_agent = "Some (scripted never_asks)"
       and start_time = 0 and end_time = 1 and x_api_key = "''your-secret-key''",
     OF nb, THEN conjunct2, THEN conjunct2, THEN mp, OF 3] k
  have 4: "post_research reads_five Map.empty (Some (scripted never_asks)) 0 1
      ''your-secret-key'' ?bad = Inl (RequestValidationError [(''query'', StringTooShort)])"
    by simp
  from validation_accepts_within_bounds
    [where raw = ?zero and str_to_int = reads_five, OF nz, THEN conjunct1]
  have 5: "\<nexists>r. ResearchRequest reads_five ?zero = Inr r"
    by simp
  have "\<And>i::int. (5 / 2 :: real) \<noteq> of_int i"
  proof
    fix i :: int
    assume "(5 / 2 :: real) = of_int i"
    then have "(5 :: real) = of_int (2 * i)" by simp
    then have "(5 :: int) = 2 * i" by (simp only: of_int_eq_iff [symmetric] of_int_numeral)
    then show False by presburger
  qed
  with validation_accepts_within_bounds
    [where raw = ?half and str_to_int = reads_five, OF nh, THEN conjunct1]
  have 6: "\<nexists>r. ResearchRequest reads_five ?half = Inr r"
    by simp
  from validation_accepts_within_bounds
    [where raw = ?true and str_to_int = reads_five, OF nt, THEN conjunct1]
  have 7: "\<exists>r. ResearchRequest reads_five ?true = Inr r"
    by simp
  from n5 1 2 3 4 5 6 7 show ?thesis by - (intro conjI, assumption+)
qed

text \<open>
  \<open>ResearchRequest\<close> has no upper bound on the length of the query: it accepts a query of
  1001 characters. It also accepts \<open>max_iterations: null\<close>, which is no number from 1 to
  10, and the run then raises when the tools node has run. And \<open>AgentInput\<close> accepts no
  body at all, since the import of its module raises.
\<close>

theorem research_request_accepts_long_query:
  "length (replicate 1001 CHR ''a'') = 1001 \<and>
   ResearchRequest reads_five
     \<lparr>raw_query = Some (JStr (replicate 1001 CHR ''a'')), raw_max_iterations = Some (JInt 3)\<rparr> =
     Inr \<lparr>query = replicate 1001 CHR ''a'', req_max_iterations = Some 3\<rparr> \<and>
   ResearchRequest reads_five
     \<lparr>raw_query = Some (JStr ''What is new in AI?''), raw_max_iterations = Some JNull\<rparr> =
     Inr \<lparr>query = ''What is new in AI?'', req_max_iterations = None\<rparr> \<and>
   research (scripted asks_once) ''What is new in AI?'' None =
     Inl (Exception
       (CHR 0x27 # ''>='' @ CHR 0x27 #
        '' not supported between instances of '' @ CHR 0x27 # ''int'' @ CHR 0x27 #
        '' and '' @ CHR 0x27 # ''NoneType'' @ [CHR 0x27])) \<and>
   AgentInput reads_five
     \<lparr>raw_query = Some (JStr ''What is new in AI?''), raw_max_iterations = Some (JInt 3)\<rparr> =
     Inl (Exception (''field_validator() got an unexpected keyword argument '' @
                     CHR 0x27 # ''pre'' @ [CHR 0x27]))"
proof -
  have 1: "length (replicate 1001 CHR ''a'') = 1001" by simp
  have 2: "ResearchRequest reads_five
     \<lparr>raw_query = Some (JStr (replicate 1001 CHR ''a'')), raw_max_iterations = Some (JInt 3)\<rparr> =
     Inr \<lparr>query = replicate 1001 CHR ''a'', req_max_iterations = Some 3\<rparr>"
    by (simp add: ResearchRequest_def validate_model_def str_field_def optional_int_field_def
        int_value_def)
  have 3: "ResearchRequest reads_five
     \<lparr>raw_query = Some (JStr ''What is new in AI?''), raw_max_iterations = Some JNull\<rparr> =
     Inr \<lparr>query = ''What is new in AI?'', req_max_iterations = None\<rparr>"
    by (simp add: ResearchRequest_def validate_model_def str_field_def optional_int_field_def)
  have 4: "research (scripted asks_once) ''What is new in AI?'' None =
     Inl (Exception
       (CHR 0x27 # ''>='' @ CHR 0x27 #
        '' not supported between instances of '' @ CHR 0x27 # ''int'' @ CHR 0x27 #
        '' and '' @ CHR 0x27 # ''NoneType'' @ [CHR 0x27]))"
    by (simp add: research_def invoke_def eval_nat_numeral run_defs asks_once_def)
  have 5: "AgentInput reads_five
     \<lparr>raw_query = Some (JStr ''What is new in AI?''), raw_max_iterations = Some (JInt 3)\<rparr> =
     Inl (Exception (''field_validator() got an unexpected keyword argument '' @
                     CHR 0x27 # ''pre'' @ [CHR 0x27]))"
    by (simp add: AgentInput_def import_schemas_raises)
  from 1 2 3 4 5 show ?thesis by - (intro conjI, assumption+)
qed

end
